theory Spec2Isabelle
  imports Complex_Main "HOL-Library.AList"
begin

section \<open>Python values\<close>

text \<open>
  The script \<^verbatim>\<open>benchmark_db.py\<close> builds its data set as lists of Python dicts whose
  values are ints, strings and floats. Floats are kept abstract (type variable \<open>'f\<close>):
  the script never inspects them, it only obtains them from the \<^verbatim>\<open>random\<close> module,
  from \<^verbatim>\<open>round\<close> and from \<^verbatim>\<open>time.perf_counter\<close>. A dict is an association
  list in insertion order.
\<close>

datatype 'f pyval =
    PInt int
  | PStr string
  | PFloat 'f
  | PDict "(string \<times> 'f pyval) list"

type_synonym 'f doc = "(string \<times> 'f pyval) list"

text \<open>\<^verbatim>\<open>str(i)\<close> as used by the f-strings: decimal digits, with a sign for negatives.\<close>

definition digit_char :: "nat \<Rightarrow> char" where
  "digit_char d = char_of (48 + d)"

fun str_nat :: "nat \<Rightarrow> string" where
  "str_nat n = (if n < 10 then [digit_char n] else str_nat (n div 10) @ [digit_char (n mod 10)])"

declare str_nat.simps [simp del]

definition str_int :: "int \<Rightarrow> string" where
  "str_int i = (if i < 0 then CHR ''-'' # str_nat (nat (- i)) else str_nat (nat i))"

text \<open>\<^verbatim>\<open>range(a, b)\<close> for ints.\<close>

definition py_range :: "int \<Rightarrow> int \<Rightarrow> int list" where
  "py_range a b = [a..b - 1]"

section \<open>The library functions the generator calls\<close>

text \<open>
  The module-level generator of \<^verbatim>\<open>random\<close> is global state of type \<open>'s\<close>. The
  four functions of the module that \<^verbatim>\<open>get_dataset\<close> calls are parameters, each
  taking the generator state and returning the new one. \<^verbatim>\<open>rng_choice\<close> is
  \<^verbatim>\<open>random.choice\<close> at lists of strings, the only type it is used at.
\<close>

record ('s, 'f) random_module =
  rng_seed :: "int \<Rightarrow> 's \<Rightarrow> 's"
  rng_randint :: "int \<Rightarrow> int \<Rightarrow> 's \<Rightarrow> int \<times> 's"
  rng_uniform :: "int \<Rightarrow> int \<Rightarrow> 's \<Rightarrow> 'f \<times> 's"
  rng_choice :: "string list \<Rightarrow> 's \<Rightarrow> string \<times> 's"

text \<open>
  Float operations of the interpreter: \<^verbatim>\<open>round(x, n)\<close>, the expression
  \<^verbatim>\<open>(end - start) * 1000\<close> and the format \<^verbatim>\<open>{x:.2f}\<close>.
\<close>

record 'f float_ops =
  fl_round :: "'f \<Rightarrow> int \<Rightarrow> 'f"
  fl_elapsed_ms :: "'f \<Rightarrow> 'f \<Rightarrow> 'f"
  fl_format2 :: "'f \<Rightarrow> string"

text \<open>
  The documented contracts of the library, used as hypotheses where a claim needs them:
  \<^verbatim>\<open>random.seed(a)\<close> sets the state from \<open>a\<close> alone, and
  \<^verbatim>\<open>random.randint(a, b)\<close> returns \<open>N\<close> with \<open>a \<le> N \<le> b\<close>.
\<close>

definition seed_resets :: "('s, 'f) random_module \<Rightarrow> bool" where
  "seed_resets R \<longleftrightarrow> (\<forall>a s s'. rng_seed R a s = rng_seed R a s')"

definition randint_in_range :: "('s, 'f) random_module \<Rightarrow> bool" where
  "randint_in_range R \<longleftrightarrow>
     (\<forall>a b s. a \<le> b \<longrightarrow> a \<le> fst (rng_randint R a b s) \<and> fst (rng_randint R a b s) \<le> b)"

section \<open>Data generator\<close>

definition new_user :: "int \<Rightarrow> 'f doc" where
  "new_user i =
     [(''user_id'', PInt i),
      (''name'', PStr (''User '' @ str_int i)),
      (''email'', PStr (''user'' @ str_int i @ ''@example.com'')),
      (''created_at'', PStr ''2023-01-01 10:00:00'')]"

definition statuses :: "string list" where
  "statuses = [''PENDING'', ''PAID'', ''CANCELLED'']"

text \<open>
  One order dict. Python evaluates the values of a dict display left to right, so the
  three draws happen in the order of the keys.
\<close>

definition new_order :: "('s, 'f) random_module \<Rightarrow> 'f float_ops \<Rightarrow> int \<Rightarrow> 's \<Rightarrow> 'f doc \<times> 's" where
  "new_order R F i s =
     (case rng_randint R 1 5000 s of (uid, s1) \<Rightarrow>
      case rng_uniform R 1 500 s1 of (x, s2) \<Rightarrow>
      case rng_choice R statuses s2 of (st, s3) \<Rightarrow>
        ([(''order_id'', PInt i),
          (''user_id'', PInt uid),
          (''amount'', PFloat (fl_round F x 2)),
          (''status'', PStr st),
          (''created_at'', PStr ''2023-01-02 11:00:00'')], s3))"

text \<open>The two \<^verbatim>\<open>for\<close> loops, each appending to its list.\<close>

fun users_loop :: "int list \<Rightarrow> 'f doc list \<Rightarrow> 'f doc list" where
  "users_loop [] users = users"
| "users_loop (i # is) users = users_loop is (users @ [new_user i])"

fun orders_loop ::
  "('s, 'f) random_module \<Rightarrow> 'f float_ops \<Rightarrow> int list \<Rightarrow> 'f doc list \<Rightarrow> 's \<Rightarrow> 'f doc list \<times> 's" where
  "orders_loop R F [] orders s = (orders, s)"
| "orders_loop R F (i # is) orders s =
     (case new_order R F i s of (ord, s') \<Rightarrow> orders_loop R F is (orders @ [ord]) s')"

text \<open>
  \<^verbatim>\<open>get_dataset()\<close>: takes the state of the global generator, returns
  \<open>(users, orders)\<close> and the state it leaves behind.
\<close>

definition get_dataset ::
  "('s, 'f) random_module \<Rightarrow> 'f float_ops \<Rightarrow> 's \<Rightarrow> ('f doc list \<times> 'f doc list) \<times> 's" where
  "get_dataset R F s =
     (let s0 = rng_seed R 42 s;
          users = users_loop (py_range 1 5001) [];
          (orders, s1) = orders_loop R F (py_range 1 20001) [] s0
      in ((users, orders), s1))"

text \<open>A small linear congruential generator over rationals, to run the definitions on.\<close>

definition lcg_next :: "int \<Rightarrow> int" where
  "lcg_next s = (1103515245 * s + 12345) mod 2147483648"

definition lcg :: "(int, rat) random_module" where
  "lcg = \<lparr> rng_seed = (\<lambda>a s. a mod 2147483648),
           rng_randint = (\<lambda>a b s. (a + lcg_next s mod (b - a + 1), lcg_next s)),
           rng_uniform = (\<lambda>a b s. (of_int a + of_int (b - a) * (of_int (lcg_next s) / 2147483648), lcg_next s)),
           rng_choice = (\<lambda>xs s. (xs ! nat (lcg_next s mod int (length xs)), lcg_next s)) \<rparr>"

text \<open>
  Floats read as exact rationals, to run the definitions on: \<^verbatim>\<open>round\<close> and the format
  \<^verbatim>\<open>.2f\<close> round half to even.
\<close>

definition round_half_even :: "rat \<Rightarrow> int" where
  "round_half_even x =
     (let f = \<lfloor>x\<rfloor>; d = x - of_int f
      in if d < 1 / 2 then f else if 1 / 2 < d then f + 1 else if even f then f else f + 1)"

definition rat_ops :: "rat float_ops" where
  "rat_ops = \<lparr> fl_round = (\<lambda>x n.
                 if 0 \<le> n then of_int (round_half_even (x * 10 ^ nat n)) / 10 ^ nat n
                 else of_int (round_half_even (x / 10 ^ nat (- n))) * 10 ^ nat (- n)),
               fl_elapsed_ms = (\<lambda>e s. (e - s) * 1000),
               fl_format2 = (\<lambda>x. str_int (round_half_even (x * 100) div 100) @ ''.'' @
                                  str_int (round_half_even (x * 100) mod 100 div 10) @
                                  str_int (round_half_even (x * 100) mod 10)) \<rparr>"

section \<open>The outside world of the harness\<close>

text \<open>
  Everything the benchmark functions do to the database drivers, the file system, the
  clock and standard output is a call into an environment \<open>E\<close>. A Python exception is
  a value; \<^verbatim>\<open>except Exception as e\<close> catches every value of this type.
\<close>

datatype exn = Exception string | KeyError string

definition quoted :: "string \<Rightarrow> string" where
  "quoted s = [CHR 0x27] @ s @ [CHR 0x27]"

fun exn_str :: "exn \<Rightarrow> string" where
  "exn_str (Exception m) = m"
| "exn_str (KeyError k) = quoted k"

text \<open>The two DB-API connections (with their cursor).\<close>

datatype conn = SQLite | MySQL

text \<open>TinyDB query objects, as built from \<^verbatim>\<open>Query()\<close>.\<close>

datatype 'f tquery =
    QEq string "'f pyval"
  | QGt string "'f pyval"
  | QAnd "'f tquery" "'f tquery"

text \<open>The driver and OS calls whose return value the script does not look at.\<close>

datatype 'f call =
    OsRemove string
  | SqliteConnect string
  | MysqlConnect "(string \<times> string) list"
  | Cursor conn
  | Execute conn string "'f pyval list"
  | Commit conn
  | Fetchone conn
  | Fetchall conn
  | Close conn
  | MongoClient string
  | MongoGetDatabase string
  | MongoDrop string
  | MongoFindOne string "'f doc"
  | MongoFind string "'f doc"
  | MongoUpdateMany string "'f doc" "'f doc"
  | MongoDeleteMany string "'f doc"
  | TinyDBOpen string
  | TinyTable string
  | TinyGet string "'f tquery"
  | TinySearch string "'f tquery"
  | TinyUpdate string "'f doc" "'f tquery"
  | TinyRemove string "'f tquery"

text \<open>Where a dict is inserted: a MongoDB collection or a TinyDB table.\<close>

datatype store = MongoColl string | TinyTbl string

text \<open>
  \<open>perf_counter\<close> and \<open>path_exists\<close> (\<^verbatim>\<open>os.path.exists\<close>) do not raise.
  \<open>insert_doc\<close> is \<^verbatim>\<open>insert_one\<close> / \<^verbatim>\<open>insert\<close>: it receives a reference to a
  dict and may change that dict in place, so besides its outcome it returns the dict as
  the call leaves it.
\<close>

record ('w, 'f) env =
  perf_counter :: "'w \<Rightarrow> 'f \<times> 'w"
  path_exists :: "string \<Rightarrow> 'w \<Rightarrow> bool \<times> 'w"
  driver :: "'f call \<Rightarrow> 'w \<Rightarrow> (exn + unit) \<times> 'w"
  insert_doc :: "store \<Rightarrow> 'f doc \<Rightarrow> 'w \<Rightarrow> ((exn + unit) \<times> 'f doc) \<times> 'w"

text \<open>History of the calls made, in order, with what each returned.\<close>

datatype 'f event =
    Timer 'f
  | Exists string bool
  | Called "'f call" "exn + unit"
  | Inserted store "'f doc" "exn + unit" "'f doc"
  | Printed string

text \<open>
  The state a run works on: the outside world, the history, and the contents of the two
  list objects \<^verbatim>\<open>users_data\<close> and \<^verbatim>\<open>orders_data\<close> that \<^verbatim>\<open>__main__\<close> passes by
  reference to every \<^verbatim>\<open>run_*\<close> function (their parameters \<^verbatim>\<open>users\<close> and
  \<^verbatim>\<open>orders\<close>).
\<close>

record ('w, 'f) sys =
  world :: 'w
  trace :: "'f event list"
  users_data :: "'f doc list"
  orders_data :: "'f doc list"

type_synonym ('a, 'w, 'f) prog = "('w, 'f) sys \<Rightarrow> (exn + 'a) \<times> ('w, 'f) sys"

definition return :: "'a \<Rightarrow> ('a, 'w, 'f) prog" where
  "return x st = (Inr x, st)"

definition bind :: "('a, 'w, 'f) prog \<Rightarrow> ('a \<Rightarrow> ('b, 'w, 'f) prog) \<Rightarrow> ('b, 'w, 'f) prog" where
  "bind m k st = (case m st of (Inl e, st') \<Rightarrow> (Inl e, st') | (Inr x, st') \<Rightarrow> k x st')"

text \<open>
  \<^verbatim>\<open>try: body except Exception as e: handler; return\<close> followed by the rest of the
  function.
\<close>

definition try_except ::
  "('a, 'w, 'f) prog \<Rightarrow> (exn \<Rightarrow> ('b, 'w, 'f) prog) \<Rightarrow> ('a \<Rightarrow> ('b, 'w, 'f) prog) \<Rightarrow> ('b, 'w, 'f) prog" where
  "try_except body handler rest st =
     (case body st of (Inl e, st') \<Rightarrow> handler e st' | (Inr x, st') \<Rightarrow> rest x st')"

fun for_each :: "'a list \<Rightarrow> ('a \<Rightarrow> (unit, 'w, 'f) prog) \<Rightarrow> (unit, 'w, 'f) prog" where
  "for_each [] body = return ()"
| "for_each (x # xs) body = bind (body x) (\<lambda>_. for_each xs body)"

fun repeat :: "nat \<Rightarrow> (unit, 'w, 'f) prog \<Rightarrow> (unit, 'w, 'f) prog" where
  "repeat 0 body = return ()"
| "repeat (Suc n) body = bind body (\<lambda>_. repeat n body)"

definition emit :: "'f event \<Rightarrow> ('w, 'f) sys \<Rightarrow> ('w, 'f) sys" where
  "emit ev st = st\<lparr>trace := trace st @ [ev]\<rparr>"

definition print :: "string \<Rightarrow> (unit, 'w, 'f) prog" where
  "print s st = (Inr (), emit (Printed s) st)"

definition call :: "('w, 'f) env \<Rightarrow> 'f call \<Rightarrow> (unit, 'w, 'f) prog" where
  "call E c st =
     (case driver E c (world st) of (r, w') \<Rightarrow> (r, emit (Called c r) (st\<lparr>world := w'\<rparr>)))"

definition time_perf_counter :: "('w, 'f) env \<Rightarrow> ('f, 'w, 'f) prog" where
  "time_perf_counter E st =
     (case perf_counter E (world st) of (t, w') \<Rightarrow> (Inr t, emit (Timer t) (st\<lparr>world := w'\<rparr>)))"

definition os_path_exists :: "('w, 'f) env \<Rightarrow> string \<Rightarrow> (bool, 'w, 'f) prog" where
  "os_path_exists E p st =
     (case path_exists E p (world st) of (b, w') \<Rightarrow> (Inr b, emit (Exists p b) (st\<lparr>world := w'\<rparr>)))"

definition insert_ref :: "('w, 'f) env \<Rightarrow> store \<Rightarrow> 'f doc \<Rightarrow> ('f doc, 'w, 'f) prog" where
  "insert_ref E tgt d st =
     (case insert_doc E tgt d (world st) of ((r, d'), w') \<Rightarrow>
        (case r of Inl e \<Rightarrow> Inl e | Inr _ \<Rightarrow> Inr d', emit (Inserted tgt d r d') (st\<lparr>world := w'\<rparr>)))"

text \<open>\<^verbatim>\<open>d[k]\<close> and a tuple of such lookups.\<close>

definition getitem :: "'f doc \<Rightarrow> string \<Rightarrow> ('f pyval, 'w, 'f) prog" where
  "getitem d k st = (case map_of d k of None \<Rightarrow> (Inl (KeyError k), st) | Some v \<Rightarrow> (Inr v, st))"

fun getitems :: "'f doc \<Rightarrow> string list \<Rightarrow> ('f pyval list, 'w, 'f) prog" where
  "getitems d [] = return []"
| "getitems d (k # ks) = bind (getitem d k) (\<lambda>v. bind (getitems d ks) (\<lambda>vs. return (v # vs)))"

text \<open>\<^verbatim>\<open>d.copy()\<close>: a new dict with the same items.\<close>

definition dict_copy :: "'f doc \<Rightarrow> 'f doc" where
  "dict_copy d = d"

definition get_users :: "('f doc list, 'w, 'f) prog" where
  "get_users st = (Inr (users_data st), st)"

definition get_orders :: "('f doc list, 'w, 'f) prog" where
  "get_orders st = (Inr (orders_data st), st)"

text \<open>What an in-place change of the \<open>i\<close>-th dict of a shared list does to the list.\<close>

definition put_user :: "nat \<Rightarrow> 'f doc \<Rightarrow> (unit, 'w, 'f) prog" where
  "put_user i d st = (Inr (), st\<lparr>users_data := (users_data st)[i := d]\<rparr>)"

definition put_order :: "nat \<Rightarrow> 'f doc \<Rightarrow> (unit, 'w, 'f) prog" where
  "put_order i d st = (Inr (), st\<lparr>orders_data := (orders_data st)[i := d]\<rparr>)"

section \<open>Benchmark timer\<close>

record 'f benchmark =
  db_name :: string
  results :: "(string \<times> 'f) list"

definition Benchmark :: "string \<Rightarrow> 'f benchmark" where
  "Benchmark name = \<lparr> db_name = name, results = [] \<rparr>"

text \<open>
  \<^verbatim>\<open>Benchmark.measure\<close>. \<^verbatim>\<open>self.results[operation_name] = duration_ms\<close> on a dict
  is \<open>AList.update\<close>: an existing key keeps its place, a new key goes to the end.
\<close>

definition measure ::
  "('w, 'f) env \<Rightarrow> 'f float_ops \<Rightarrow> 'f benchmark \<Rightarrow> string \<Rightarrow> (unit, 'w, 'f) prog \<Rightarrow>
   ('f benchmark, 'w, 'f) prog" where
  "measure E F self operation_name func =
     bind (time_perf_counter E) (\<lambda>start.
     bind func (\<lambda>_.
     bind (time_perf_counter E) (\<lambda>end.
     let duration_ms = fl_elapsed_ms F end start;
         self' = self\<lparr>results := AList.update operation_name duration_ms (results self)\<rparr>
     in bind (print (''['' @ db_name self @ ''] '' @ operation_name @ '': '' @
                     fl_format2 F duration_ms @ '' ms''))
          (\<lambda>_. return self'))))"

text \<open>\<^verbatim>\<open>Benchmark.print_summary\<close>; no run function calls it.\<close>

definition print_summary :: "'f float_ops \<Rightarrow> 'f benchmark \<Rightarrow> (unit, 'w, 'f) prog" where
  "print_summary F self =
     bind (print ([CHR 0x0A] @ ''--- '' @ db_name self @ '' Results ---'')) (\<lambda>_.
     for_each (results self) (\<lambda>(key, val). print (key @ '': '' @ fl_format2 F val @ '' ms'')))"

section \<open>SQLite\<close>

text \<open>
  The nested functions of \<^verbatim>\<open>run_sqlite\<close> close over the connection, its cursor and the
  two lists; here they are functions of the environment and read the lists from the state.
\<close>

definition sqlite_insert_data :: "('w, 'f) env \<Rightarrow> (unit, 'w, 'f) prog" where
  "sqlite_insert_data E =
     bind get_users (\<lambda>users.
     bind (for_each users (\<lambda>u.
       bind (getitems u [''user_id'', ''name'', ''email'', ''created_at'']) (\<lambda>args.
       call E (Execute SQLite ''INSERT INTO users VALUES (?, ?, ?, ?)'' args)))) (\<lambda>_.
     bind get_orders (\<lambda>orders.
     bind (for_each orders (\<lambda>ord.
       bind (getitems ord [''order_id'', ''user_id'', ''amount'', ''status'', ''created_at'']) (\<lambda>args.
       call E (Execute SQLite ''INSERT INTO orders VALUES (?, ?, ?, ?, ?)'' args)))) (\<lambda>_.
     call E (Commit SQLite)))))"

definition sqlite_read_point :: "('w, 'f) env \<Rightarrow> (unit, 'w, 'f) prog" where
  "sqlite_read_point E =
     repeat 1000
       (bind (call E (Execute SQLite ''SELECT * FROM users WHERE user_id = 2500'' [])) (\<lambda>_.
        call E (Fetchone SQLite)))"

definition sqlite_read_range :: "('w, 'f) env \<Rightarrow> (unit, 'w, 'f) prog" where
  "sqlite_read_range E =
     bind (call E (Execute SQLite
             (''SELECT * FROM orders WHERE amount > 300 AND status = '' @ quoted ''PAID'') [])) (\<lambda>_.
     call E (Fetchall SQLite))"

definition sqlite_read_user_orders :: "('w, 'f) env \<Rightarrow> (unit, 'w, 'f) prog" where
  "sqlite_read_user_orders E =
     repeat 100
       (bind (call E (Execute SQLite ''SELECT * FROM orders WHERE user_id = 1234'' [])) (\<lambda>_.
        call E (Fetchall SQLite)))"

definition sqlite_update_op :: "('w, 'f) env \<Rightarrow> (unit, 'w, 'f) prog" where
  "sqlite_update_op E =
     bind (call E (Execute SQLite
             (''UPDATE orders SET status = '' @ quoted ''PAID'' @ '' WHERE status = '' @
              quoted ''PENDING'') [])) (\<lambda>_.
     call E (Commit SQLite))"

definition sqlite_delete_op :: "('w, 'f) env \<Rightarrow> (unit, 'w, 'f) prog" where
  "sqlite_delete_op E =
     bind (call E (Execute SQLite
             (''DELETE FROM orders WHERE status = '' @ quoted ''CANCELLED'') [])) (\<lambda>_.
     call E (Commit SQLite))"

definition run_sqlite ::
  "('w, 'f) env \<Rightarrow> 'f float_ops \<Rightarrow> ((string \<times> 'f) list, 'w, 'f) prog" where
  "run_sqlite E F =
     (let db_file = ''benchmark.db'' in
      bind (os_path_exists E db_file) (\<lambda>ex.
      bind (if ex then call E (OsRemove db_file) else return ()) (\<lambda>_.
      bind (call E (SqliteConnect db_file)) (\<lambda>_.
      bind (call E (Cursor SQLite)) (\<lambda>_.
      let bench = Benchmark ''SQLite'' in
      bind (call E (Execute SQLite
              ''CREATE TABLE users (user_id INTEGER PRIMARY KEY, name TEXT, email TEXT, created_at TEXT)''
              [])) (\<lambda>_.
      bind (call E (Execute SQLite
              ''CREATE TABLE orders (order_id INTEGER PRIMARY KEY, user_id INTEGER, amount REAL, status TEXT, created_at TEXT, FOREIGN KEY(user_id) REFERENCES users(user_id))''
              [])) (\<lambda>_.
      bind (call E (Commit SQLite)) (\<lambda>_.
      bind (measure E F bench ''Create'' (sqlite_insert_data E)) (\<lambda>bench.
      bind (measure E F bench ''Read-1 Point'' (sqlite_read_point E)) (\<lambda>bench.
      bind (measure E F bench ''Read-2 Range'' (sqlite_read_range E)) (\<lambda>bench.
      bind (measure E F bench ''Read-3 UserOrders'' (sqlite_read_user_orders E)) (\<lambda>bench.
      bind (measure E F bench ''Update'' (sqlite_update_op E)) (\<lambda>bench.
      bind (measure E F bench ''Delete'' (sqlite_delete_op E)) (\<lambda>bench.
      bind (call E (Close SQLite)) (\<lambda>_.
      return (results bench))))))))))))))))"

section \<open>MySQL\<close>

definition MYSQL_CONFIG :: "(string \<times> string) list" where
  "MYSQL_CONFIG =
     [(''user'', ''bench''), (''password'', ''password''),
      (''host'', ''localhost''), (''database'', ''shopping_db'')]"

definition mysql_insert_data :: "('w, 'f) env \<Rightarrow> (unit, 'w, 'f) prog" where
  "mysql_insert_data E =
     bind get_users (\<lambda>users.
     bind (for_each users (\<lambda>u.
       bind (getitems u [''user_id'', ''name'', ''email'', ''created_at'']) (\<lambda>args.
       call E (Execute MySQL
         ''INSERT INTO users (user_id, name, email, created_at) VALUES (%s, %s, %s, %s)'' args)))) (\<lambda>_.
     bind get_orders (\<lambda>orders.
     bind (for_each orders (\<lambda>ord.
       bind (getitems ord [''order_id'', ''user_id'', ''amount'', ''status'', ''created_at'']) (\<lambda>args.
       call E (Execute MySQL
         ''INSERT INTO orders (order_id, user_id, amount, status, created_at) VALUES (%s, %s, %s, %s, %s)''
         args)))) (\<lambda>_.
     call E (Commit MySQL)))))"

definition mysql_read_point :: "('w, 'f) env \<Rightarrow> (unit, 'w, 'f) prog" where
  "mysql_read_point E =
     repeat 1000
       (bind (call E (Execute MySQL ''SELECT * FROM users WHERE user_id = 2500'' [])) (\<lambda>_.
        call E (Fetchall MySQL)))"

definition mysql_read_range :: "('w, 'f) env \<Rightarrow> (unit, 'w, 'f) prog" where
  "mysql_read_range E =
     bind (call E (Execute MySQL
             (''SELECT * FROM orders WHERE amount > 300 AND status = '' @ quoted ''PAID'') [])) (\<lambda>_.
     call E (Fetchall MySQL))"

definition mysql_read_user_orders :: "('w, 'f) env \<Rightarrow> (unit, 'w, 'f) prog" where
  "mysql_read_user_orders E =
     repeat 100
       (bind (call E (Execute MySQL ''SELECT * FROM orders WHERE user_id = 1234'' [])) (\<lambda>_.
        call E (Fetchall MySQL)))"

definition mysql_update_op :: "('w, 'f) env \<Rightarrow> (unit, 'w, 'f) prog" where
  "mysql_update_op E =
     bind (call E (Execute MySQL
             (''UPDATE orders SET status = '' @ quoted ''PAID'' @ '' WHERE status = '' @
              quoted ''PENDING'') [])) (\<lambda>_.
     call E (Commit MySQL))"

definition mysql_delete_op :: "('w, 'f) env \<Rightarrow> (unit, 'w, 'f) prog" where
  "mysql_delete_op E =
     bind (call E (Execute MySQL
             (''DELETE FROM orders WHERE status = '' @ quoted ''CANCELLED'') [])) (\<lambda>_.
     call E (Commit MySQL))"

definition run_mysql ::
  "('w, 'f) env \<Rightarrow> 'f float_ops \<Rightarrow> ((string \<times> 'f) list, 'w, 'f) prog" where
  "run_mysql E F =
     try_except (call E (MysqlConnect MYSQL_CONFIG))
       (\<lambda>e. bind (print (''Skipping MySQL: '' @ exn_str e)) (\<lambda>_. return []))
       (\<lambda>_.
      bind (call E (Cursor MySQL)) (\<lambda>_.
      let bench = Benchmark ''MySQL'' in
      bind (call E (Execute MySQL ''DROP TABLE IF EXISTS orders'' [])) (\<lambda>_.
      bind (call E (Execute MySQL ''DROP TABLE IF EXISTS users'' [])) (\<lambda>_.
      bind (call E (Execute MySQL
              ''CREATE TABLE users (user_id INT PRIMARY KEY, name VARCHAR(255), email VARCHAR(255), created_at DATETIME)''
              [])) (\<lambda>_.
      bind (call E (Execute MySQL
              ''CREATE TABLE orders (order_id INT PRIMARY KEY, user_id INT, amount DECIMAL(10,2), status VARCHAR(50), created_at DATETIME, FOREIGN KEY (user_id) REFERENCES users(user_id))''
              [])) (\<lambda>_.
      bind (call E (Commit MySQL)) (\<lambda>_.
      bind (measure E F bench ''Create'' (mysql_insert_data E)) (\<lambda>bench.
      bind (measure E F bench ''Read-1 Point'' (mysql_read_point E)) (\<lambda>bench.
      bind (measure E F bench ''Read-2 Range'' (mysql_read_range E)) (\<lambda>bench.
      bind (measure E F bench ''Read-3 UserOrders'' (mysql_read_user_orders E)) (\<lambda>bench.
      bind (measure E F bench ''Update'' (mysql_update_op E)) (\<lambda>bench.
      bind (measure E F bench ''Delete'' (mysql_delete_op E)) (\<lambda>bench.
      bind (call E (Close MySQL)) (\<lambda>_.
      return (results bench)))))))))))))))"

section \<open>MongoDB\<close>

text \<open>
  \<^verbatim>\<open>insert_one\<close> is handed \<^verbatim>\<open>u.copy()\<close>: what it does to that dict is dropped with
  the copy.
\<close>

definition mongodb_insert_data :: "('w, 'f) env \<Rightarrow> (unit, 'w, 'f) prog" where
  "mongodb_insert_data E =
     bind get_users (\<lambda>users.
     bind (for_each users (\<lambda>u.
       bind (insert_ref E (MongoColl ''users'') (dict_copy u)) (\<lambda>_. return ()))) (\<lambda>_.
     bind get_orders (\<lambda>orders.
     for_each orders (\<lambda>ord.
       bind (insert_ref E (MongoColl ''orders'') (dict_copy ord)) (\<lambda>_. return ())))))"

definition mongodb_read_point :: "('w, 'f) env \<Rightarrow> (unit, 'w, 'f) prog" where
  "mongodb_read_point E =
     repeat 1000 (call E (MongoFindOne ''users'' [(''user_id'', PInt 2500)]))"

definition mongodb_read_range :: "('w, 'f) env \<Rightarrow> (unit, 'w, 'f) prog" where
  "mongodb_read_range E =
     call E (MongoFind ''orders''
       [(''amount'', PDict [(''$gt'', PInt 300)]), (''status'', PStr ''PAID'')])"

definition mongodb_read_user_orders :: "('w, 'f) env \<Rightarrow> (unit, 'w, 'f) prog" where
  "mongodb_read_user_orders E =
     repeat 100 (call E (MongoFind ''orders'' [(''user_id'', PInt 1234)]))"

definition mongodb_update_op :: "('w, 'f) env \<Rightarrow> (unit, 'w, 'f) prog" where
  "mongodb_update_op E =
     call E (MongoUpdateMany ''orders'' [(''status'', PStr ''PENDING'')]
       [(''$set'', PDict [(''status'', PStr ''PAID'')])])"

definition mongodb_delete_op :: "('w, 'f) env \<Rightarrow> (unit, 'w, 'f) prog" where
  "mongodb_delete_op E =
     call E (MongoDeleteMany ''orders'' [(''status'', PStr ''CANCELLED'')])"

definition run_mongodb ::
  "('w, 'f) env \<Rightarrow> 'f float_ops \<Rightarrow> ((string \<times> 'f) list, 'w, 'f) prog" where
  "run_mongodb E F =
     try_except
       (bind (call E (MongoClient ''mongodb://localhost:27017/'')) (\<lambda>_.
        call E (MongoGetDatabase ''shopping_db'')))
       (\<lambda>e. bind (print (''Skipping MongoDB: '' @ exn_str e)) (\<lambda>_. return []))
       (\<lambda>_.
      let bench = Benchmark ''MongoDB'' in
      bind (call E (MongoDrop ''users'')) (\<lambda>_.
      bind (call E (MongoDrop ''orders'')) (\<lambda>_.
      bind (measure E F bench ''Create'' (mongodb_insert_data E)) (\<lambda>bench.
      bind (measure E F bench ''Read-1 Point'' (mongodb_read_point E)) (\<lambda>bench.
      bind (measure E F bench ''Read-2 Range'' (mongodb_read_range E)) (\<lambda>bench.
      bind (measure E F bench ''Read-3 UserOrders'' (mongodb_read_user_orders E)) (\<lambda>bench.
      bind (measure E F bench ''Update'' (mongodb_update_op E)) (\<lambda>bench.
      bind (measure E F bench ''Delete'' (mongodb_delete_op E)) (\<lambda>bench.
      return (results bench))))))))))"

section \<open>TinyDB\<close>

text \<open>
  \<^verbatim>\<open>insert\<close> is handed the shared dict itself: what the call leaves in it is what the
  shared list holds at that index afterwards. The two \<^verbatim>\<open>Query()\<close> objects are built
  without a call into the world; the conditions built from them are the arguments of the
  table calls.
\<close>

fun tiny_insert_users :: "('w, 'f) env \<Rightarrow> nat \<Rightarrow> 'f doc list \<Rightarrow> (unit, 'w, 'f) prog" where
  "tiny_insert_users E i [] = return ()"
| "tiny_insert_users E i (u # us) =
     bind (insert_ref E (TinyTbl ''users'') u) (\<lambda>u'.
     bind (put_user i u') (\<lambda>_. tiny_insert_users E (Suc i) us))"

fun tiny_insert_orders :: "('w, 'f) env \<Rightarrow> nat \<Rightarrow> 'f doc list \<Rightarrow> (unit, 'w, 'f) prog" where
  "tiny_insert_orders E i [] = return ()"
| "tiny_insert_orders E i (ord # ords) =
     bind (insert_ref E (TinyTbl ''orders'') ord) (\<lambda>ord'.
     bind (put_order i ord') (\<lambda>_. tiny_insert_orders E (Suc i) ords))"

definition tinydb_insert_data :: "('w, 'f) env \<Rightarrow> (unit, 'w, 'f) prog" where
  "tinydb_insert_data E =
     bind get_users (\<lambda>users.
     bind (tiny_insert_users E 0 users) (\<lambda>_.
     bind get_orders (\<lambda>orders.
     tiny_insert_orders E 0 orders)))"

definition tinydb_read_point :: "('w, 'f) env \<Rightarrow> (unit, 'w, 'f) prog" where
  "tinydb_read_point E =
     repeat 1000 (call E (TinyGet ''users'' (QEq ''user_id'' (PInt 2500))))"

definition tinydb_read_range :: "('w, 'f) env \<Rightarrow> (unit, 'w, 'f) prog" where
  "tinydb_read_range E =
     call E (TinySearch ''orders''
       (QAnd (QGt ''amount'' (PInt 300)) (QEq ''status'' (PStr ''PAID''))))"

definition tinydb_read_user_orders :: "('w, 'f) env \<Rightarrow> (unit, 'w, 'f) prog" where
  "tinydb_read_user_orders E =
     repeat 100 (call E (TinySearch ''orders'' (QEq ''user_id'' (PInt 1234))))"

definition tinydb_update_op :: "('w, 'f) env \<Rightarrow> (unit, 'w, 'f) prog" where
  "tinydb_update_op E =
     call E (TinyUpdate ''orders'' [(''status'', PStr ''PAID'')]
       (QEq ''status'' (PStr ''PENDING'')))"

definition tinydb_delete_op :: "('w, 'f) env \<Rightarrow> (unit, 'w, 'f) prog" where
  "tinydb_delete_op E =
     call E (TinyRemove ''orders'' (QEq ''status'' (PStr ''CANCELLED'')))"

definition run_tinydb ::
  "('w, 'f) env \<Rightarrow> 'f float_ops \<Rightarrow> ((string \<times> 'f) list, 'w, 'f) prog" where
  "run_tinydb E F =
     (let db_file = ''tiny_benchmark.json'' in
      bind (os_path_exists E db_file) (\<lambda>ex.
      bind (if ex then call E (OsRemove db_file) else return ()) (\<lambda>_.
      bind (call E (TinyDBOpen db_file)) (\<lambda>_.
      bind (call E (TinyTable ''users'')) (\<lambda>_.
      bind (call E (TinyTable ''orders'')) (\<lambda>_.
      let bench = Benchmark ''TinyDB'' in
      bind (measure E F bench ''Create'' (tinydb_insert_data E)) (\<lambda>bench.
      bind (measure E F bench ''Read-1 Point'' (tinydb_read_point E)) (\<lambda>bench.
      bind (measure E F bench ''Read-2 Range'' (tinydb_read_range E)) (\<lambda>bench.
      bind (measure E F bench ''Read-3 UserOrders'' (tinydb_read_user_orders E)) (\<lambda>bench.
      bind (measure E F bench ''Update'' (tinydb_update_op E)) (\<lambda>bench.
      bind (measure E F bench ''Delete'' (tinydb_delete_op E)) (\<lambda>bench.
      return (results bench)))))))))))))"

section \<open>Main execution\<close>

definition nl :: string where
  "nl = [CHR 0x0A]"

text \<open>The part of \<^verbatim>\<open>__main__\<close> after the data set is bound to the two globals.\<close>

definition main_benchmarks :: "('w, 'f) env \<Rightarrow> 'f float_ops \<Rightarrow> (unit, 'w, 'f) prog" where
  "main_benchmarks E F =
     bind get_users (\<lambda>users. bind get_orders (\<lambda>orders.
     bind (print (''Generated '' @ str_nat (length users) @ '' users and '' @
                  str_nat (length orders) @ '' orders.'')) (\<lambda>_.
     bind (print (replicate 30 CHR ''-'')) (\<lambda>_.
     bind (print (nl @ ''Starting MySQL Benchmark...'')) (\<lambda>_.
     bind (run_mysql E F) (\<lambda>_.
     bind (print (nl @ ''Starting SQLite Benchmark...'')) (\<lambda>_.
     bind (run_sqlite E F) (\<lambda>_.
     bind (print (nl @ ''Starting MongoDB Benchmark...'')) (\<lambda>_.
     bind (run_mongodb E F) (\<lambda>_.
     bind (print (nl @ ''Starting TinyDB Benchmark (This may take a while)...'')) (\<lambda>_.
     bind (run_tinydb E F) (\<lambda>_.
     print (nl @ ''Done.'')))))))))))))"

text \<open>
  \<^verbatim>\<open>__main__\<close>, from the state \<open>s\<close> of the global random generator and the state
  \<open>st\<close> of everything else. It returns how the script ended, the final state, and
  the state of the random generator.
\<close>

definition main ::
  "('s, 'f) random_module \<Rightarrow> 'f float_ops \<Rightarrow> ('w, 'f) env \<Rightarrow> 's \<Rightarrow> ('w, 'f) sys \<Rightarrow>
   ((exn + unit) \<times> ('w, 'f) sys) \<times> 's" where
  "main R F E s st =
     (let st1 = emit (Printed ''Generating Dataset...'') st in
      case get_dataset R F s of ((users, orders), s') \<Rightarrow>
        (main_benchmarks E F (st1\<lparr>users_data := users, orders_data := orders\<rparr>), s'))"

section \<open>Environments to run the definitions on\<close>

text \<open>
  A generator that only records which draws are requested, in order. It answers every
  draw with a fixed value.
\<close>

datatype draw = Seed int | Randint int int | Uniform int int | Choice "string list"

definition recorder :: "'f \<Rightarrow> (draw list, 'f) random_module" where
  "recorder x0 =
     \<lparr> rng_seed = (\<lambda>a hist. hist @ [Seed a]),
       rng_randint = (\<lambda>a b hist. (a, hist @ [Randint a b])),
       rng_uniform = (\<lambda>a b hist. (x0, hist @ [Uniform a b])),
       rng_choice = (\<lambda>xs hist. (case xs of [] \<Rightarrow> [] | x # _ \<Rightarrow> x, hist @ [Choice xs])) \<rparr>"

text \<open>
  A generator that always draws the same point of the range; from
  \<^verbatim>\<open>uniform(1, 500)\<close> it draws 254.1.
\<close>

definition steady_rng :: "(int, rat) random_module" where
  "steady_rng =
     \<lparr> rng_seed = (\<lambda>a s. a),
       rng_randint = (\<lambda>a b s. (a, s)),
       rng_uniform = (\<lambda>a b s. (of_int a + of_int (b - a) * (2531 / 4990), s)),
       rng_choice = (\<lambda>xs s. (case xs of [] \<Rightarrow> [] | x # _ \<Rightarrow> x, s)) \<rparr>"

text \<open>
  A world that is only a tick counter: every call takes one tick and succeeds, the clock
  reads the counter, no file exists, and MongoDB adds an \<^verbatim>\<open>_id\<close> to the dict it is
  given.
\<close>

definition demo_env :: "(nat, rat) env" where
  "demo_env =
     \<lparr> perf_counter = (\<lambda>w. (of_nat w / 1000, Suc w)),
       path_exists = (\<lambda>p w. (False, Suc w)),
       driver = (\<lambda>c w. (Inr (), Suc w)),
       insert_doc = (\<lambda>tgt d w.
         ((Inr (), case tgt of MongoColl _ \<Rightarrow> d @ [(''_id'', PInt (int w))] | TinyTbl _ \<Rightarrow> d),
          Suc w)) \<rparr>"

text \<open>The same world with no MySQL server listening.\<close>

definition mysql_down_env :: "(nat, rat) env" where
  "mysql_down_env =
     demo_env\<lparr>driver := (\<lambda>c w.
       (case c of MysqlConnect _ \<Rightarrow> Inl (Exception ''Connection refused'') | _ \<Rightarrow> Inr (), Suc w))\<rparr>"

text \<open>The same world where the MongoDB client cannot be constructed.\<close>

definition mongo_down_env :: "(nat, rat) env" where
  "mongo_down_env =
     demo_env\<lparr>driver := (\<lambda>c w.
       (case c of MongoClient _ \<Rightarrow> Inl (Exception ''Invalid URI'') | _ \<Rightarrow> Inr (), Suc w))\<rparr>"

text \<open>The same world where the client is there but the database cannot be selected.\<close>

definition mongo_no_database_env :: "(nat, rat) env" where
  "mongo_no_database_env =
     demo_env\<lparr>driver := (\<lambda>c w.
       (case c of MongoGetDatabase _ \<Rightarrow> Inl (Exception ''InvalidName'') | _ \<Rightarrow> Inr (), Suc w))\<rparr>"

text \<open>The same world where the SQLite database file cannot be opened.\<close>

definition sqlite_unopenable_env :: "(nat, rat) env" where
  "sqlite_unopenable_env =
     demo_env\<lparr>driver := (\<lambda>c w.
       (case c of SqliteConnect _ \<Rightarrow> Inl (Exception ''unable to open database file'')
        | _ \<Rightarrow> Inr (), Suc w))\<rparr>"

text \<open>The same world where every statement sent to MySQL is rejected.\<close>

definition mysql_rejects_env :: "(nat, rat) env" where
  "mysql_rejects_env =
     demo_env\<lparr>driver := (\<lambda>c w.
       (case c of Execute MySQL _ _ \<Rightarrow> Inl (Exception ''access denied'') | _ \<Rightarrow> Inr (), Suc w))\<rparr>"

text \<open>The same world where every statement sent to SQLite is rejected.\<close>

definition sqlite_rejects_env :: "(nat, rat) env" where
  "sqlite_rejects_env =
     demo_env\<lparr>driver := (\<lambda>c w.
       (case c of Execute SQLite _ _ \<Rightarrow> Inl (Exception ''disk I/O error'') | _ \<Rightarrow> Inr (), Suc w))\<rparr>"

definition init_sys :: "(nat, rat) sys" where
  "init_sys = \<lparr> world = 0, trace = [], users_data = [], orders_data = [] \<rparr>"

section \<open>Notions used to state the properties\<close>

text \<open>The clock readings of a history, in order.\<close>

fun timer_readings :: "'f event list \<Rightarrow> 'f list" where
  "timer_readings [] = []"
| "timer_readings (Timer t # evs) = t # timer_readings evs"
| "timer_readings (_ # evs) = timer_readings evs"

text \<open>
  \<^verbatim>\<open>time.perf_counter\<close> is a monotonic clock: there is a current time \<open>clk\<close> of the
  world that no call turns back, and a reading lies between the time before and the time
  after it is taken.
\<close>

definition monotonic_clock :: "('w, 'f::linorder) env \<Rightarrow> ('w \<Rightarrow> 'f) \<Rightarrow> bool" where
  "monotonic_clock E clk \<longleftrightarrow>
     (\<forall>w. clk w \<le> fst (perf_counter E w) \<and> fst (perf_counter E w) \<le> clk (snd (perf_counter E w))) \<and>
     (\<forall>p w. clk w \<le> clk (snd (path_exists E p w))) \<and>
     (\<forall>c w. clk w \<le> clk (snd (driver E c w))) \<and>
     (\<forall>tgt d w. clk w \<le> clk (snd (insert_doc E tgt d w)))"

text \<open>The keys of a complete result mapping, in the order in which they are measured.\<close>

definition operation_names :: "string list" where
  "operation_names =
     [''Create'', ''Read-1 Point'', ''Read-2 Range'', ''Read-3 UserOrders'', ''Update'', ''Delete'']"

text \<open>A list of readings \<open>start, end, start, end, ...\<close> as timed windows.\<close>

fun windows :: "'f list \<Rightarrow> ('f \<times> 'f) list" where
  "windows (s # e # ts) = (s, e) # windows ts"
| "windows _ = []"

text \<open>The clock readings that a run from \<open>st\<close> to \<open>st'\<close> added to the history.\<close>

definition new_readings :: "('w, 'f) sys \<Rightarrow> ('w, 'f) sys \<Rightarrow> 'f list" where
  "new_readings st st' = drop (length (timer_readings (trace st))) (timer_readings (trace st'))"

text \<open>
  What a complete run leaves: twelve readings in order, that is six windows of which each
  ends before the next starts, and a result mapping that gives the \<open>i\<close>-th operation name
  the duration of the \<open>i\<close>-th window.
\<close>

definition six_windows ::
  "'f::linorder float_ops \<Rightarrow> ('w, 'f) sys \<Rightarrow> ('w, 'f) sys \<Rightarrow> (string \<times> 'f) list \<Rightarrow> bool" where
  "six_windows F st st' res \<longleftrightarrow>
     length (new_readings st st') = 12 \<and> sorted (new_readings st st') \<and>
     res = zip operation_names
             (map (\<lambda>(s, e). fl_elapsed_ms F e s) (windows (new_readings st st')))"

text \<open>The calls that the script wraps in \<^verbatim>\<open>try\<close> / \<^verbatim>\<open>except\<close>.\<close>

fun guarded_call :: "'f call \<Rightarrow> bool" where
  "guarded_call (MysqlConnect _) = True"
| "guarded_call (MongoClient _) = True"
| "guarded_call (MongoGetDatabase _) = True"
| "guarded_call _ = False"

text \<open>A world in which no call fails except, possibly, the guarded ones.\<close>

definition only_guarded_fail :: "('w, 'f) env \<Rightarrow> bool" where
  "only_guarded_fail E \<longleftrightarrow>
     (\<forall>c w. \<not> guarded_call c \<longrightarrow> fst (driver E c w) = Inr ()) \<and>
     (\<forall>tgt d w. fst (fst (insert_doc E tgt d w)) = Inr ())"

text \<open>TinyDB's \<^verbatim>\<open>insert\<close> stores a copy and leaves the dict it is given as it was.\<close>

definition tinydb_keeps_argument :: "('w, 'f) env \<Rightarrow> bool" where
  "tinydb_keeps_argument E \<longleftrightarrow> (\<forall>n d w. snd (fst (insert_doc E (TinyTbl n) d w)) = d)"

text \<open>Every user dict has the four keys, every order dict the five, that the SQL inserts read.\<close>

definition users_have_keys :: "'f doc list \<Rightarrow> bool" where
  "users_have_keys U \<longleftrightarrow>
     (\<forall>u \<in> set U. set [''user_id'', ''name'', ''email'', ''created_at''] \<subseteq> fst ` set u)"

definition orders_have_keys :: "'f doc list \<Rightarrow> bool" where
  "orders_have_keys O' \<longleftrightarrow>
     (\<forall>ord \<in> set O'.
        set [''order_id'', ''user_id'', ''amount'', ''status'', ''created_at''] \<subseteq> fst ` set ord)"

definition well_formed_data :: "('w, 'f) sys \<Rightarrow> bool" where
  "well_formed_data st \<longleftrightarrow>
     users_have_keys (users_data st) \<and> orders_have_keys (orders_data st)"

text \<open>
  Contracts of the float operations, relative to the float \<open>of_i n\<close> of an integer \<open>n\<close>
  and to the number \<open>digits x\<close> of digits that the decimal form of a float shows after the
  point. \<^verbatim>\<open>random.uniform(a, b)\<close> returns \<open>N\<close> with \<open>a \<le> N \<le> b\<close>;
  \<^verbatim>\<open>round(x, n)\<close> with \<open>n \<ge> 0\<close> does not leave an interval between two integers and
  returns a float with at most \<open>n\<close> digits after the point.
\<close>

definition uniform_in_range :: "('s, 'f::linorder) random_module \<Rightarrow> (int \<Rightarrow> 'f) \<Rightarrow> bool" where
  "uniform_in_range R of_i \<longleftrightarrow>
     (\<forall>a b s. a \<le> b \<longrightarrow>
        of_i a \<le> fst (rng_uniform R a b s) \<and> fst (rng_uniform R a b s) \<le> of_i b)"

definition round_within_integers :: "'f::linorder float_ops \<Rightarrow> (int \<Rightarrow> 'f) \<Rightarrow> bool" where
  "round_within_integers F of_i \<longleftrightarrow>
     (\<forall>x n lo hi. 0 \<le> n \<longrightarrow> of_i lo \<le> x \<longrightarrow> x \<le> of_i hi \<longrightarrow>
        of_i lo \<le> fl_round F x n \<and> fl_round F x n \<le> of_i hi)"

definition round_digits :: "'f float_ops \<Rightarrow> ('f \<Rightarrow> nat) \<Rightarrow> bool" where
  "round_digits F digits \<longleftrightarrow> (\<forall>x n. 0 \<le> n \<longrightarrow> digits (fl_round F x n) \<le> nat n)"

text \<open>
  For a float read as a rational: the least number of digits after the point that write
  it, looked for among the 17 significant digits a double has.
\<close>

fun frac_digits_upto :: "nat \<Rightarrow> nat \<Rightarrow> rat \<Rightarrow> nat" where
  "frac_digits_upto 0 k x = k"
| "frac_digits_upto (Suc fuel) k x =
     (if of_int \<lfloor>x * 10 ^ k\<rfloor> = x * 10 ^ k then k else frac_digits_upto fuel (Suc k) x)"

definition rat_frac_digits :: "rat \<Rightarrow> nat" where
  "rat_frac_digits x = frac_digits_upto 17 0 x"

text \<open>How one generated order advances the random generator: its three draws, in order.\<close>

definition three_draws :: "('s, 'f) random_module \<Rightarrow> 's \<Rightarrow> 's" where
  "three_draws R s =
     snd (rng_choice R statuses (snd (rng_uniform R 1 500 (snd (rng_randint R 1 5000 s)))))"

text \<open>
  The state in which \<^verbatim>\<open>__main__\<close> holds the generated data set, and the state in
  which it calls \<^verbatim>\<open>run_mysql\<close>, after its three announcements.
\<close>

definition main_start ::
  "('s, 'f) random_module \<Rightarrow> 'f float_ops \<Rightarrow> 's \<Rightarrow> ('w, 'f) sys \<Rightarrow> ('w, 'f) sys" where
  "main_start R F s st =
     (emit (Printed ''Generating Dataset...'') st)
       \<lparr>users_data := fst (fst (get_dataset R F s)), orders_data := snd (fst (get_dataset R F s))\<rparr>"

definition announced :: "('w, 'f) sys \<Rightarrow> ('w, 'f) sys" where
  "announced st0 =
     emit (Printed (nl @ ''Starting MySQL Benchmark...''))
       (emit (Printed (replicate 30 CHR ''-''))
         (emit (Printed (''Generated '' @ str_nat (length (users_data st0)) @ '' users and '' @
                         str_nat (length (orders_data st0)) @ '' orders.'')) st0))"

text \<open>Assertions about one program: an invariant, a total and a partial postcondition.\<close>

definition inv :: "(('w, 'f) sys \<Rightarrow> bool) \<Rightarrow> ('a, 'w, 'f) prog \<Rightarrow> bool" where
  "inv I f \<longleftrightarrow> (\<forall>st. I st \<longrightarrow> I (snd (f st)))"

definition total ::
  "(('w, 'f) sys \<Rightarrow> bool) \<Rightarrow> ('a, 'w, 'f) prog \<Rightarrow> ('a \<Rightarrow> ('w, 'f) sys \<Rightarrow> bool) \<Rightarrow> bool" where
  "total P f Q \<longleftrightarrow> (\<forall>st. P st \<longrightarrow> (\<exists>x st'. f st = (Inr x, st') \<and> Q x st'))"

definition partial ::
  "(('w, 'f) sys \<Rightarrow> bool) \<Rightarrow> ('a, 'w, 'f) prog \<Rightarrow> ('a \<Rightarrow> ('w, 'f) sys \<Rightarrow> bool) \<Rightarrow> bool" where
  "partial P f Q \<longleftrightarrow> (\<forall>st x st'. P st \<longrightarrow> f st = (Inr x, st') \<longrightarrow> Q x st')"

text \<open>
  Invariants used in the proofs: the shared lists hold given values, the history holds
  given clock readings, and the readings added since some point are in order and not ahead
  of the current time. \<open>io_closed\<close> and \<open>put_closed\<close> say that an invariant survives
  every call into the world, resp. every write to the shared lists.
\<close>

definition has_data :: "'f doc list \<Rightarrow> 'f doc list \<Rightarrow> ('w, 'f) sys \<Rightarrow> bool" where
  "has_data U O' st \<longleftrightarrow> users_data st = U \<and> orders_data st = O'"

definition io_closed :: "(('w, 'f) sys \<Rightarrow> bool) \<Rightarrow> ('w, 'f) env \<Rightarrow> bool" where
  "io_closed I E \<longleftrightarrow>
     (\<forall>c. inv I (call E c)) \<and> (\<forall>s. inv I (print s)) \<and> (\<forall>p. inv I (os_path_exists E p)) \<and>
     (\<forall>tgt d. inv I (insert_ref E tgt d))"

definition put_closed :: "(('w, 'f) sys \<Rightarrow> bool) \<Rightarrow> bool" where
  "put_closed I \<longleftrightarrow>
     (\<forall>i d. inv I (put_user i d :: (unit, 'w, 'f) prog)) \<and>
     (\<forall>i d. inv I (put_order i d :: (unit, 'w, 'f) prog))"

named_theorems inv_intro

definition silent :: "'f list \<Rightarrow> ('w, 'f) sys \<Rightarrow> bool" where
  "silent L st \<longleftrightarrow> timer_readings (trace st) = L"

definition clocked :: "('w \<Rightarrow> 'f::linorder) \<Rightarrow> 'f list \<Rightarrow> ('w, 'f) sys \<Rightarrow> bool" where
  "clocked clk L0 st \<longleftrightarrow>
     (\<exists>L. timer_readings (trace st) = L0 @ L \<and> sorted L \<and> (\<forall>t \<in> set L. t \<le> clk (world st)))"

section \<open>Properties of the generator\<close>

lemma users_loop_map: "users_loop is users = users @ map new_user is"
  by (induction "is" arbitrary: users) simp_all

lemma length_py_range: "length (py_range a b) = nat (b - a)"
  by (simp add: py_range_def)

lemma lcg_seed_resets: "seed_resets lcg"
  by (simp add: seed_resets_def lcg_def)

lemma mod_offset_in_range:
  fixes a b x :: int
  assumes "a \<le> b"
  shows "a \<le> a + x mod (b - a + 1) \<and> a + x mod (b - a + 1) \<le> b"
proof -
  have pos: "0 < b - a + 1" using assms by simp
  have "0 \<le> x mod (b - a + 1)" using pos by (rule pos_mod_sign)
  moreover have "x mod (b - a + 1) < b - a + 1" using pos by (rule pos_mod_bound)
  ultimately show ?thesis by linarith
qed

lemma lcg_randint_in_range: "randint_in_range lcg"
  by (simp add: randint_in_range_def lcg_def mod_offset_in_range)

lemma new_order_state: "snd (new_order R F i s) = three_draws R s"
  by (simp add: new_order_def three_draws_def split: prod.splits)

lemma orders_loop_acc:
  "orders_loop R F is acc s = (acc @ fst (orders_loop R F is [] s), snd (orders_loop R F is [] s))"
proof (induction "is" arbitrary: acc s)
  case Nil
  show ?case by simp
next
  case (Cons i "is")
  obtain ord s' where no: "new_order R F i s = (ord, s')" by (cases "new_order R F i s")
  show ?case
    using Cons.IH [of "acc @ [ord]" s'] Cons.IH [of "[ord]" s'] by (simp add: no)
qed

lemma orders_loop_Cons:
  "orders_loop R F (i # is) [] s =
     (fst (new_order R F i s) # fst (orders_loop R F is [] (snd (new_order R F i s))),
      snd (orders_loop R F is [] (snd (new_order R F i s))))"
proof -
  obtain ord s' where no: "new_order R F i s = (ord, s')" by (cases "new_order R F i s")
  show ?thesis using orders_loop_acc [of R F "is" "[ord]" s'] by (simp add: no)
qed

lemma orders_loop_state: "snd (orders_loop R F is [] s) = (three_draws R ^^ length is) s"
proof (induction "is" arbitrary: s)
  case Nil
  show ?case by simp
next
  case (Cons i "is")
  show ?case
    by (simp only: orders_loop_Cons snd_conv Cons.IH new_order_state length_Cons funpow_Suc_right o_apply)
qed

lemma orders_loop_length: "length (fst (orders_loop R F is [] s)) = length is"
proof (induction "is" arbitrary: s)
  case Nil
  show ?case by simp
next
  case (Cons i "is")
  show ?case by (simp only: orders_loop_Cons fst_conv Cons.IH length_Cons)
qed

lemma get_dataset_unfold:
  "get_dataset R F s =
     ((map new_user (py_range 1 5001), fst (orders_loop R F (py_range 1 20001) [] (rng_seed R 42 s))),
      snd (orders_loop R F (py_range 1 20001) [] (rng_seed R 42 s)))"
  by (simp add: get_dataset_def users_loop_map Let_def split: prod.splits)

text \<open>
  C1. Provided seeding sets the generator state from the seed alone, any two invocations
  of \<^verbatim>\<open>get_dataset\<close> return equal \<open>(users, orders)\<close> pairs, whatever the state of the
  global generator before each of them: also the second of two invocations in a row, which
  starts from the state the first one left. Equality of the lists is equality of their
  lengths (5000 and 20000) and of every key and value of every dict.
\<close>

theorem get_dataset_deterministic:
  assumes "seed_resets R"
  shows "fst (get_dataset R F s) = fst (get_dataset R F s') \<and>
         fst (get_dataset R F (snd (get_dataset R F s))) = fst (get_dataset R F s) \<and>
         length (fst (fst (get_dataset R F s))) = 5000 \<and>
         length (snd (fst (get_dataset R F s))) = 20000"
proof -
  have seed: "\<And>s1 s2. rng_seed R 42 s1 = rng_seed R 42 s2"
    using assms by (simp add: seed_resets_def)
  have eq: "\<And>s1 s2. get_dataset R F s1 = get_dataset R F s2"
    unfolding get_dataset_unfold using seed by metis
  have "length (fst (fst (get_dataset R F s))) = 5000"
    by (simp add: get_dataset_unfold length_py_range)
  moreover have "length (snd (fst (get_dataset R F s))) = 20000"
    by (simp add: get_dataset_unfold orders_loop_length length_py_range)
  ultimately show ?thesis using eq by metis
qed

text \<open>
  The theorem at the linear congruential generator, from the states 0 and 7.
\<close>

theorem get_dataset_deterministic_witness:
  "seed_resets lcg \<and>
   fst (get_dataset lcg rat_ops 0) = fst (get_dataset lcg rat_ops 7) \<and>
   fst (get_dataset lcg rat_ops (snd (get_dataset lcg rat_ops 0))) = fst (get_dataset lcg rat_ops 0) \<and>
   length (fst (fst (get_dataset lcg rat_ops 0))) = 5000 \<and>
   length (snd (fst (get_dataset lcg rat_ops 0))) = 20000"
  using get_dataset_deterministic [OF lcg_seed_resets, of rat_ops 0 7] lcg_seed_resets by blast

text \<open>
  C10. \<^verbatim>\<open>get_dataset\<close> reseeds the global generator with 42 on entry: from any two
  states of the generator it returns the same pair and leaves the same state behind, and
  that state is the one seeded with 42 advanced by the three draws of each of the 20000
  orders.
\<close>

theorem get_dataset_reseeds:
  assumes "seed_resets R"
  shows "get_dataset R F s = get_dataset R F s' \<and>
         snd (get_dataset R F s) = (three_draws R ^^ 20000) (rng_seed R 42 s')"
proof -
  have seed: "rng_seed R 42 s = rng_seed R 42 s'"
    using assms by (simp add: seed_resets_def)
  show ?thesis
    by (simp add: get_dataset_unfold seed orders_loop_state length_py_range)
qed


lemma new_user_user_id: "map_of (new_user i) ''user_id'' = Some (PInt i)"
  by (simp add: new_user_def)

lemma new_order_order_id: "map_of (fst (new_order R F i s)) ''order_id'' = Some (PInt i)"
  by (simp add: new_order_def split: prod.splits)

lemma new_order_user_id:
  "map_of (fst (new_order R F i s)) ''user_id'' = Some (PInt (fst (rng_randint R 1 5000 s)))"
  by (simp add: new_order_def split: prod.splits)

lemma new_order_created_at:
  "map_of (fst (new_order R F i s)) ''created_at'' = Some (PStr ''2023-01-02 11:00:00'')"
  by (simp add: new_order_def split: prod.splits)

lemma orders_loop_order_ids:
  "map (\<lambda>ord. map_of ord ''order_id'') (fst (orders_loop R F is [] s)) = map (\<lambda>i. Some (PInt i)) is"
proof (induction "is" arbitrary: s)
  case Nil
  show ?case by simp
next
  case (Cons i "is")
  show ?case
    by (simp only: orders_loop_Cons fst_conv list.map Cons.IH new_order_order_id)
qed

lemma orders_loop_created_at:
  "map (\<lambda>ord. map_of ord ''created_at'') (fst (orders_loop R F is [] s)) =
     replicate (length is) (Some (PStr ''2023-01-02 11:00:00''))"
proof (induction "is" arbitrary: s)
  case Nil
  show ?case by simp
next
  case (Cons i "is")
  show ?case
    by (simp only: orders_loop_Cons fst_conv list.map Cons.IH new_order_created_at
          length_Cons replicate_Suc)
qed

lemma orders_loop_user_ids:
  assumes "randint_in_range R"
  shows "\<forall>ord \<in> set (fst (orders_loop R F is [] s)).
           \<exists>u. map_of ord ''user_id'' = Some (PInt u) \<and> 1 \<le> u \<and> u \<le> 5000"
proof (induction "is" arbitrary: s)
  case Nil
  show ?case by simp
next
  case (Cons i "is")
  have "1 \<le> fst (rng_randint R 1 5000 s) \<and> fst (rng_randint R 1 5000 s) \<le> 5000"
    using assms by (simp add: randint_in_range_def)
  then have "\<exists>u. map_of (fst (new_order R F i s)) ''user_id'' = Some (PInt u) \<and> 1 \<le> u \<and> u \<le> 5000"
    by (simp add: new_order_user_id)
  then show ?case
    using Cons.IH by (simp only: orders_loop_Cons fst_conv set_simps ball_simps simp_thms)
qed

lemma py_range_upto: "py_range 1 5001 = [1..5000]" "py_range 1 20001 = [1..20000]"
  by (simp_all add: py_range_def)

text \<open>
  C2. Provided \<^verbatim>\<open>randint(a, b)\<close> stays within \<open>a..b\<close>, every generated order has a
  \<^verbatim>\<open>user_id\<close> between 1 and 5000; the \<^verbatim>\<open>user_id\<close>s of the users are 1, ..., 5000 in
  this order and the \<^verbatim>\<open>order_id\<close>s of the orders are 1, ..., 20000 in this order, so
  the record at position \<open>i\<close> (counting from 1) holds identifier \<open>i\<close>.
\<close>

theorem identifiers_dense_and_in_range:
  assumes "randint_in_range R"
  shows "(\<forall>ord \<in> set (snd (fst (get_dataset R F s))).
            \<exists>u. map_of ord ''user_id'' = Some (PInt u) \<and> 1 \<le> u \<and> u \<le> 5000) \<and>
         map (\<lambda>u. map_of u ''user_id'') (fst (fst (get_dataset R F s))) =
           map (\<lambda>i. Some (PInt i)) [1..5000] \<and>
         map (\<lambda>ord. map_of ord ''order_id'') (snd (fst (get_dataset R F s))) =
           map (\<lambda>i. Some (PInt i)) [1..20000]"
proof -
  have "map (\<lambda>u. map_of u ''user_id'') (map new_user [1..5000]) = map (\<lambda>i. Some (PInt i)) [1..5000]"
    by (simp add: new_user_user_id)
  then show ?thesis
    using orders_loop_user_ids [OF assms]
    by (simp add: get_dataset_unfold py_range_upto orders_loop_order_ids)
qed

lemma recorder_three_draws:
  "three_draws (recorder x0) hist =
     hist @ [Randint 1 5000, Uniform 1 500, Choice [''PENDING'', ''PAID'', ''CANCELLED'']]"
  by (simp add: three_draws_def recorder_def statuses_def)

lemma funpow_append: "((\<lambda>hist. hist @ xs) ^^ n) hist = hist @ concat (replicate n xs)"
  by (induction n arbitrary: hist) (simp_all del: funpow.simps add: funpow_Suc_right)

lemma orders_loop_nth:
  "k < length is \<Longrightarrow>
     fst (orders_loop R F is [] s) ! k = fst (new_order R F (is ! k) ((three_draws R ^^ k) s))"
proof (induction "is" arbitrary: k s)
  case Nil
  then show ?case by simp
next
  case (Cons i "is")
  show ?case
  proof (cases k)
    case 0
    then show ?thesis by (simp only: orders_loop_Cons fst_conv nth_Cons_0 funpow_0)
  next
    case (Suc m)
    then have "m < length is" using Cons.prems by simp
    then show ?thesis
      using Cons.IH [of m "snd (new_order R F i s)"] Suc
      by (simp only: orders_loop_Cons fst_conv nth_Cons_Suc new_order_state funpow_Suc_right
            o_apply)
  qed
qed

lemma new_order_unfold:
  "fst (new_order R F i s) =
     [(''order_id'', PInt i),
      (''user_id'', PInt (fst (rng_randint R 1 5000 s))),
      (''amount'', PFloat (fl_round F (fst (rng_uniform R 1 500 (snd (rng_randint R 1 5000 s)))) 2)),
      (''status'',
         PStr (fst (rng_choice R [''PENDING'', ''PAID'', ''CANCELLED'']
                 (snd (rng_uniform R 1 500 (snd (rng_randint R 1 5000 s))))))),
      (''created_at'', PStr ''2023-01-02 11:00:00'')]"
  by (simp add: new_order_def statuses_def split: prod.splits)

lemma orders_closed_form:
  "fst (orders_loop R F [1..20000] [] s0) =
     map (\<lambda>i. fst (new_order R F i ((three_draws R ^^ nat (i - 1)) s0))) [1..20000]"
proof (rule nth_equalityI)
  show "length (fst (orders_loop R F [1..20000] [] s0)) =
        length (map (\<lambda>i. fst (new_order R F i ((three_draws R ^^ nat (i - 1)) s0))) [1..20000])"
    by (simp add: orders_loop_length)
next
  fix k
  assume "k < length (fst (orders_loop R F [1..20000] [] s0))"
  then have k: "k < 20000" by (simp add: orders_loop_length)
  then have nth: "[1..20000] ! k = 1 + int k" by (simp add: nth_upto)
  have "fst (orders_loop R F [1..20000] [] s0) ! k =
          fst (new_order R F (1 + int k) ((three_draws R ^^ k) s0))"
    using orders_loop_nth [of k "[1..20000]" R F s0] k nth by simp
  moreover have "map (\<lambda>i. fst (new_order R F i ((three_draws R ^^ nat (i - 1)) s0))) [1..20000] ! k =
          fst (new_order R F (1 + int k) ((three_draws R ^^ k) s0))"
    using k nth by simp
  ultimately show "fst (orders_loop R F [1..20000] [] s0) ! k =
      map (\<lambda>i. fst (new_order R F i ((three_draws R ^^ nat (i - 1)) s0))) [1..20000] ! k"
    by simp
qed

text \<open>
  C4. The users are built first and without a draw: user \<open>i\<close> is determined by \<open>i\<close>, with
  name \<^verbatim>\<open>User i\<close>, email \<^verbatim>\<open>useri@example.com\<close> and a constant \<^verbatim>\<open>created_at\<close>.
  For every random module, order \<open>i\<close> is built from the state of the stream seeded with 42
  and advanced by the draws of the \<open>i - 1\<close> orders before it: its \<^verbatim>\<open>user_id\<close> is the first
  draw, \<^verbatim>\<open>randint(1, 5000)\<close>; its amount is the second, \<^verbatim>\<open>uniform(1, 500)\<close> from the
  state the first draw left, rounded to 2 digits; its status is the third, \<^verbatim>\<open>choice\<close>
  among the three statuses from the state the second draw left; the state the third draw
  left is where the next order starts; \<^verbatim>\<open>created_at\<close> is a constant. The stream ends
  after the 20000-th order's draws. Run on the recording generator, the requests are one
  seeding with 42 and then, 20000 times, these three in this order. \<^verbatim>\<open>get_dataset\<close> has
  no access to the clock.
\<close>

theorem draw_order:
  "fst (fst (get_dataset R F s)) =
     map (\<lambda>i. [(''user_id'', PInt i),
               (''name'', PStr (''User '' @ str_int i)),
               (''email'', PStr (''user'' @ str_int i @ ''@example.com'')),
               (''created_at'', PStr ''2023-01-01 10:00:00'')]) [1..5000] \<and>
   snd (fst (get_dataset R F s)) =
     map (\<lambda>i. let before = (three_draws R ^^ nat (i - 1)) (rng_seed R 42 s);
                  first = rng_randint R 1 5000 before;
                  second = rng_uniform R 1 500 (snd first);
                  third = rng_choice R [''PENDING'', ''PAID'', ''CANCELLED''] (snd second)
              in [(''order_id'', PInt i),
                  (''user_id'', PInt (fst first)),
                  (''amount'', PFloat (fl_round F (fst second) 2)),
                  (''status'', PStr (fst third)),
                  (''created_at'', PStr ''2023-01-02 11:00:00'')]) [1..20000] \<and>
   three_draws R =
     (\<lambda>before. snd (rng_choice R [''PENDING'', ''PAID'', ''CANCELLED'']
                  (snd (rng_uniform R 1 500 (snd (rng_randint R 1 5000 before)))))) \<and>
   snd (get_dataset R F s) = (three_draws R ^^ 20000) (rng_seed R 42 s) \<and>
   snd (get_dataset (recorder x0) F hist) =
     hist @ Seed 42 #
       concat (replicate 20000
         [Randint 1 5000, Uniform 1 500, Choice [''PENDING'', ''PAID'', ''CANCELLED'']])"
proof -
  have users: "fst (fst (get_dataset R F s)) = map new_user [1..5000]"
    by (simp add: get_dataset_unfold py_range_upto)
  have orders: "snd (fst (get_dataset R F s)) =
     map (\<lambda>i. fst (new_order R F i ((three_draws R ^^ nat (i - 1)) (rng_seed R 42 s)))) [1..20000]"
    by (simp add: get_dataset_unfold py_range_upto orders_closed_form)
  have three: "three_draws R =
     (\<lambda>before. snd (rng_choice R [''PENDING'', ''PAID'', ''CANCELLED'']
                  (snd (rng_uniform R 1 500 (snd (rng_randint R 1 5000 before))))))"
    by (rule ext) (simp add: three_draws_def statuses_def)
  have final: "snd (get_dataset R F s) = (three_draws R ^^ 20000) (rng_seed R 42 s)"
    by (simp add: get_dataset_unfold orders_loop_state length_py_range)
  have "three_draws (recorder x0) = (\<lambda>hist. hist @ [Randint 1 5000, Uniform 1 500, Choice [''PENDING'', ''PAID'', ''CANCELLED'']])"
    by (rule ext) (rule recorder_three_draws)
  then have "snd (get_dataset (recorder x0) F hist) =
     (rng_seed (recorder x0) 42 hist) @ concat (replicate 20000
         [Randint 1 5000, Uniform 1 500, Choice [''PENDING'', ''PAID'', ''CANCELLED'']])"
    by (simp add: get_dataset_unfold orders_loop_state length_py_range funpow_append)
  then have draws: "snd (get_dataset (recorder x0) F hist) =
     hist @ Seed 42 # concat (replicate 20000
         [Randint 1 5000, Uniform 1 500, Choice [''PENDING'', ''PAID'', ''CANCELLED'']])"
    by (simp add: recorder_def)
  have users': "fst (fst (get_dataset R F s)) =
     map (\<lambda>i. [(''user_id'', PInt i),
               (''name'', PStr (''User '' @ str_int i)),
               (''email'', PStr (''user'' @ str_int i @ ''@example.com'')),
               (''created_at'', PStr ''2023-01-01 10:00:00'')]) [1..5000]"
    unfolding users by (simp add: new_user_def [abs_def])
  have orders': "snd (fst (get_dataset R F s)) =
     map (\<lambda>i. let before = (three_draws R ^^ nat (i - 1)) (rng_seed R 42 s);
                  first = rng_randint R 1 5000 before;
                  second = rng_uniform R 1 500 (snd first);
                  third = rng_choice R [''PENDING'', ''PAID'', ''CANCELLED''] (snd second)
              in [(''order_id'', PInt i),
                  (''user_id'', PInt (fst first)),
                  (''amount'', PFloat (fl_round F (fst second) 2)),
                  (''status'', PStr (fst third)),
                  (''created_at'', PStr ''2023-01-02 11:00:00'')]) [1..20000]"
    unfolding orders by (simp only: new_order_unfold Let_def)
  show ?thesis
    by (intro conjI users' orders' three final draws)
qed

text \<open>
  The theorem at the linear congruential generator.
\<close>

theorem identifiers_dense_and_in_range_witness:
  "randint_in_range lcg \<and>
   (\<exists>u. map_of (snd (fst (get_dataset lcg rat_ops 0)) ! 0) ''user_id'' = Some (PInt u) \<and>
        1 \<le> u \<and> u \<le> 5000) \<and>
   map (\<lambda>u. map_of u ''user_id'') (fst (fst (get_dataset lcg rat_ops 0))) =
           map (\<lambda>i. Some (PInt i)) [1..5000] \<and>
   map (\<lambda>ord. map_of ord ''order_id'') (snd (fst (get_dataset lcg rat_ops 0))) =
           map (\<lambda>i. Some (PInt i)) [1..20000]"
proof -
  have "length (snd (fst (get_dataset lcg rat_ops 0))) = 20000"
    by (simp add: get_dataset_unfold orders_loop_length length_py_range)
  then have "snd (fst (get_dataset lcg rat_ops 0)) ! 0 \<in> set (snd (fst (get_dataset lcg rat_ops 0)))"
    by (simp del: One_nat_def)
  then show ?thesis
    using identifiers_dense_and_in_range [OF lcg_randint_in_range, of rat_ops 0]
      lcg_randint_in_range
    by blast
qed

text \<open>
  The theorem at the linear congruential generator, from the states 0 and 7.
\<close>

theorem get_dataset_reseeds_witness:
  "seed_resets lcg \<and>
   get_dataset lcg rat_ops 0 = get_dataset lcg rat_ops 7 \<and>
   snd (get_dataset lcg rat_ops 0) = (three_draws lcg ^^ 20000) (rng_seed lcg 42 7)"
  using get_dataset_reseeds [OF lcg_seed_resets, of rat_ops 0 7] lcg_seed_resets by blast

lemma new_order_amount:
  "map_of (fst (new_order R F i s)) ''amount'' =
     Some (PFloat (fl_round F (fst (rng_uniform R 1 500 (snd (rng_randint R 1 5000 s)))) 2))"
  by (simp add: new_order_def split: prod.splits)

lemma orders_loop_amounts:
  fixes R :: "('s, 'f::linorder) random_module"
  assumes "uniform_in_range R of_i" and "round_within_integers F of_i" and "round_digits F digits"
  shows "\<forall>ord \<in> set (fst (orders_loop R F is [] s)).
           \<exists>x. map_of ord ''amount'' = Some (PFloat x) \<and>
               of_i 1 \<le> x \<and> x \<le> of_i 500 \<and> digits x \<le> 2"
proof (induction "is" arbitrary: s)
  case Nil
  show ?case by simp
next
  case (Cons i "is")
  let ?u = "fst (rng_uniform R 1 500 (snd (rng_randint R 1 5000 s)))"
  have u: "of_i 1 \<le> ?u \<and> ?u \<le> of_i 500"
    using assms(1) by (simp add: uniform_in_range_def)
  have r: "of_i 1 \<le> fl_round F ?u 2 \<and> fl_round F ?u 2 \<le> of_i 500"
    using assms(2) [unfolded round_within_integers_def, rule_format, of 2 1 ?u 500] u by simp
  have d: "digits (fl_round F ?u 2) \<le> 2"
    using assms(3) [unfolded round_digits_def, rule_format, of 2 ?u] by simp
  have "\<exists>x. map_of (fst (new_order R F i s)) ''amount'' = Some (PFloat x) \<and>
               of_i 1 \<le> x \<and> x \<le> of_i 500 \<and> digits x \<le> 2"
    using r d by (simp add: new_order_amount)
  then show ?case
    using Cons.IH by (simp only: orders_loop_Cons fst_conv set_simps ball_simps simp_thms)
qed

text \<open>
  C3, as amended. Provided \<^verbatim>\<open>uniform(a, b)\<close> stays within \<open>a..b\<close> and
  \<^verbatim>\<open>round(x, 2)\<close> stays between the integers around \<open>x\<close> and returns at most 2 digits
  after the point, every generated order has an amount between 1 and 500 with at most 2
  digits after the point.
\<close>

theorem amounts_in_range:
  fixes R :: "('s, 'f::linorder) random_module"
  assumes "uniform_in_range R of_i" and "round_within_integers F of_i" and "round_digits F digits"
  shows "\<forall>ord \<in> set (snd (fst (get_dataset R F s))).
           \<exists>x. map_of ord ''amount'' = Some (PFloat x) \<and>
               of_i 1 \<le> x \<and> x \<le> of_i 500 \<and> digits x \<le> 2"
  using orders_loop_amounts [OF assms] by (simp add: get_dataset_unfold)

lemma lcg_next_range: "0 \<le> lcg_next s \<and> lcg_next s < 2147483648"
  by (simp add: lcg_next_def)

lemma lcg_uniform_in_range: "uniform_in_range lcg rat_of_int"
  unfolding uniform_in_range_def
proof (intro allI impI)
  fix a b s :: int
  assume ab: "a \<le> b"
  let ?q = "rat_of_int (lcg_next s) / 2147483648"
  have q: "0 \<le> ?q \<and> ?q \<le> 1"
    using lcg_next_range [of s] by simp
  have d: "0 \<le> rat_of_int (b - a)" using ab by simp
  have lo: "0 \<le> rat_of_int (b - a) * ?q"
    using d q by (intro mult_nonneg_nonneg) simp_all
  have hi: "rat_of_int (b - a) * ?q \<le> rat_of_int (b - a) * 1"
    using d q by (intro mult_left_mono) simp_all
  have "rat_of_int a \<le> rat_of_int a + rat_of_int (b - a) * ?q"
    using lo by simp
  moreover have "rat_of_int a + rat_of_int (b - a) * ?q \<le> rat_of_int b"
    using hi by simp
  ultimately show "rat_of_int a \<le> fst (rng_uniform lcg a b s) \<and>
                   fst (rng_uniform lcg a b s) \<le> rat_of_int b"
    by (simp add: lcg_def)
qed

lemma round_half_even_cases:
  "round_half_even x = \<lfloor>x\<rfloor> \<or> round_half_even x = \<lfloor>x\<rfloor> + 1 \<and> of_int \<lfloor>x\<rfloor> < x"
  by (auto simp: round_half_even_def Let_def)

lemma round_half_even_ge:
  assumes "of_int z \<le> x"
  shows "z \<le> round_half_even x"
proof -
  have "z \<le> \<lfloor>x\<rfloor>" using assms by (simp add: le_floor_iff)
  then show ?thesis using round_half_even_cases [of x] by auto
qed

lemma round_half_even_le:
  assumes "x \<le> of_int z"
  shows "round_half_even x \<le> z"
proof -
  have f: "\<lfloor>x\<rfloor> \<le> z" using assms by (simp add: floor_le_iff) 
  show ?thesis
  proof (cases "of_int \<lfloor>x\<rfloor> < x")
    case True
    then have "of_int \<lfloor>x\<rfloor> < (of_int z :: rat)" using assms by simp
    then have "\<lfloor>x\<rfloor> < z" by simp
    then show ?thesis using round_half_even_cases [of x] by auto
  next
    case False
    then show ?thesis using f round_half_even_cases [of x] by auto
  qed
qed

lemma rat_round_within: "round_within_integers rat_ops rat_of_int"
  unfolding round_within_integers_def
proof (intro allI impI)
  fix x :: rat and n lo hi :: int
  assume n: "0 \<le> n" and lo: "rat_of_int lo \<le> x" and hi: "x \<le> rat_of_int hi"
  let ?p = "(10::rat) ^ nat n"
  have p: "0 < ?p" by simp
  have "rat_of_int (lo * 10 ^ nat n) \<le> x * ?p"
    using lo p by (simp add: mult_right_mono)
  then have a: "lo * 10 ^ nat n \<le> round_half_even (x * ?p)" by (rule round_half_even_ge)
  have "x * ?p \<le> rat_of_int (hi * 10 ^ nat n)"
    using hi p by (simp add: mult_right_mono)
  then have b: "round_half_even (x * ?p) \<le> hi * 10 ^ nat n" by (rule round_half_even_le)
  have "rat_of_int (lo * 10 ^ nat n) \<le> rat_of_int (round_half_even (x * ?p))"
    using a by (simp only: of_int_le_iff)
  then have a': "rat_of_int lo \<le> rat_of_int (round_half_even (x * ?p)) / ?p"
    using p by (simp add: pos_le_divide_eq)
  have "rat_of_int (round_half_even (x * ?p)) \<le> rat_of_int (hi * 10 ^ nat n)"
    using b by (simp only: of_int_le_iff)
  then have b': "rat_of_int (round_half_even (x * ?p)) / ?p \<le> rat_of_int hi"
    using p by (simp add: pos_divide_le_eq)
  show "rat_of_int lo \<le> fl_round rat_ops x n \<and> fl_round rat_ops x n \<le> rat_of_int hi"
    using a' b' n by (simp add: rat_ops_def)
qed

lemma frac_digits_upto_le:
  assumes "k \<le> m" and "of_int \<lfloor>x * 10 ^ m\<rfloor> = x * 10 ^ m"
  shows "frac_digits_upto fuel k x \<le> max m k"
  using assms(1)
proof (induction fuel arbitrary: k)
  case 0
  then show ?case by simp
next
  case (Suc fuel)
  show ?case
  proof (cases "of_int \<lfloor>x * 10 ^ k\<rfloor> = x * 10 ^ k")
    case True
    then show ?thesis by simp
  next
    case False
    then have "k \<noteq> m" using assms(2) by auto
    then have "Suc k \<le> m" using Suc.prems by simp
    then show ?thesis using Suc.IH [of "Suc k"] False by simp
  qed
qed

lemma rat_round_digits: "round_digits rat_ops rat_frac_digits"
  unfolding round_digits_def
proof (intro allI impI)
  fix x :: rat and n :: int
  assume n: "0 \<le> n"
  let ?y = "rat_of_int (round_half_even (x * 10 ^ nat n)) / 10 ^ nat n"
  have "?y * 10 ^ nat n = rat_of_int (round_half_even (x * 10 ^ nat n))" by simp
  then have "of_int \<lfloor>?y * 10 ^ nat n\<rfloor> = ?y * 10 ^ nat n" by (simp only: floor_of_int)
  then have "frac_digits_upto 17 0 ?y \<le> max (nat n) 0"
    by (intro frac_digits_upto_le) simp_all
  then show "rat_frac_digits (fl_round rat_ops x n) \<le> nat n"
    using n by (simp add: rat_frac_digits_def rat_ops_def)
qed

text \<open>
  The theorem at the linear congruential generator, with floats read as rationals.
\<close>

theorem amounts_in_range_witness:
  "uniform_in_range lcg rat_of_int \<and> round_within_integers rat_ops rat_of_int \<and>
   round_digits rat_ops rat_frac_digits \<and>
   (\<exists>x. map_of (snd (fst (get_dataset lcg rat_ops 0)) ! 0) ''amount'' = Some (PFloat x) \<and>
        rat_of_int 1 \<le> x \<and> x \<le> rat_of_int 500 \<and> rat_frac_digits x \<le> 2)"
proof -
  have "length (snd (fst (get_dataset lcg rat_ops 0))) = 20000"
    by (simp add: get_dataset_unfold orders_loop_length length_py_range)
  then have "snd (fst (get_dataset lcg rat_ops 0)) ! 0 \<in> set (snd (fst (get_dataset lcg rat_ops 0)))"
    by (simp del: One_nat_def)
  then have "\<exists>x. map_of (snd (fst (get_dataset lcg rat_ops 0)) ! 0) ''amount'' = Some (PFloat x) \<and>
        rat_of_int 1 \<le> x \<and> x \<le> rat_of_int 500 \<and> rat_frac_digits x \<le> 2"
    using amounts_in_range [OF lcg_uniform_in_range rat_round_within rat_round_digits, of 0]
    by blast
  then show ?thesis
    by (intro conjI lcg_uniform_in_range rat_round_within rat_round_digits)
qed

lemma first_order:
  "snd (fst (get_dataset R F s)) ! 0 = fst (new_order R F 1 (rng_seed R 42 s))"
proof -
  have "[1..20000] = 1 # [1 + 1..20000]" by (rule upto_rec1) simp
  then show ?thesis
    by (simp only: get_dataset_unfold py_range_upto snd_conv fst_conv orders_loop_Cons nth_Cons_0)
qed

text \<open>
  C3 as stated fails: when \<^verbatim>\<open>uniform(1, 500)\<close> draws 254.1, the amount of the first
  order is 254.1, which has one digit after the point, not two.
\<close>

theorem amount_with_one_fractional_digit:
  "map_of (snd (fst (get_dataset steady_rng rat_ops 0)) ! 0) ''amount'' = Some (PFloat (2541 / 10)) \<and>
   rat_frac_digits (2541 / 10) = 1"
proof -
  have "fl_round rat_ops (fst (rng_uniform steady_rng 1 500
          (snd (rng_randint steady_rng 1 5000 (rng_seed steady_rng 42 0))))) 2 = 2541 / 10"
    by (simp add: steady_rng_def rat_ops_def round_half_even_def Let_def)
  then have a: "map_of (snd (fst (get_dataset steady_rng rat_ops 0)) ! 0) ''amount'' =
      Some (PFloat (2541 / 10))"
    by (simp only: first_order new_order_amount)
  have f: "\<lfloor>2541 / 10 :: rat\<rfloor> = 254"
    by (rule floor_unique) simp_all
  have t0: "rat_of_int \<lfloor>(2541 / 10 :: rat) * 10 ^ 0\<rfloor> \<noteq> 2541 / 10 * 10 ^ 0"
    using f by simp
  have t1: "rat_of_int \<lfloor>(2541 / 10 :: rat) * 10 ^ Suc 0\<rfloor> = 2541 / 10 * 10 ^ Suc 0"
    by simp
  have "frac_digits_upto (Suc (Suc 15)) 0 (2541 / 10) = Suc 0"
    by (simp only: frac_digits_upto.simps t0 t1 if_False if_True simp_thms)
  moreover have "(17::nat) = Suc (Suc 15)" by simp
  ultimately have b: "rat_frac_digits (2541 / 10) = 1"
    by (simp only: rat_frac_digits_def One_nat_def)
  show ?thesis using a b by (rule conjI)
qed

section \<open>Properties of the harness\<close>

lemma emit_simps [simp]:
  "world (emit ev st) = world st"
  "trace (emit ev st) = trace st @ [ev]"
  "users_data (emit ev st) = users_data st"
  "orders_data (emit ev st) = orders_data st"
  by (simp_all add: emit_def)

lemma inv_return [inv_intro]: "inv I (return x)"
  by (simp add: inv_def return_def)

lemma inv_bind [inv_intro]:
  assumes "inv I f" and "\<And>x. inv I (g x)"
  shows "inv I (bind f g)"
  unfolding inv_def
proof (intro allI impI)
  fix st
  assume "I st"
  then have mid: "I (snd (f st))" using assms(1) by (simp add: inv_def)
  show "I (snd (bind f g st))"
  proof (cases "f st")
    case (Pair r st1)
    then show ?thesis
      using mid assms(2) by (cases r) (simp_all add: bind_def inv_def)
  qed
qed

lemma inv_try_except [inv_intro]:
  assumes "inv I body" and "\<And>e. inv I (handler e)" and "\<And>x. inv I (rest x)"
  shows "inv I (try_except body handler rest)"
  unfolding inv_def
proof (intro allI impI)
  fix st
  assume "I st"
  then have mid: "I (snd (body st))" using assms(1) by (simp add: inv_def)
  show "I (snd (try_except body handler rest st))"
  proof (cases "body st")
    case (Pair r st1)
    then show ?thesis
      using mid assms(2,3) by (cases r) (simp_all add: try_except_def inv_def)
  qed
qed

lemma inv_for_each [inv_intro]:
  assumes "\<And>x. inv I (body x)"
  shows "inv I (for_each xs body)"
  by (induction xs) (simp_all add: inv_return inv_bind assms)

lemma inv_repeat [inv_intro]:
  assumes "inv I body"
  shows "inv I (repeat n body)"
  by (induction n) (simp_all add: inv_return inv_bind assms)

lemma inv_if [inv_intro]: "inv I f \<Longrightarrow> inv I g \<Longrightarrow> inv I (if b then f else g)"
  by simp

lemma inv_getitem [inv_intro]: "inv I (getitem d k)"
  by (simp add: inv_def getitem_def split: option.splits)

lemma inv_getitems [inv_intro]: "inv I (getitems d ks)"
  by (induction ks) (simp_all add: inv_return inv_bind inv_getitem)

lemma inv_get_users [inv_intro]: "inv I get_users"
  by (simp add: inv_def get_users_def)

lemma inv_get_orders [inv_intro]: "inv I get_orders"
  by (simp add: inv_def get_orders_def)

lemma inv_call [inv_intro]: "io_closed I E \<Longrightarrow> inv I (call E c)"
  by (simp add: io_closed_def)

lemma inv_print: "io_closed I E \<Longrightarrow> inv I (print s)"
  by (simp add: io_closed_def)

lemma inv_os_path_exists [inv_intro]: "io_closed I E \<Longrightarrow> inv I (os_path_exists E p)"
  by (simp add: io_closed_def)

lemma inv_insert_ref [inv_intro]: "io_closed I E \<Longrightarrow> inv I (insert_ref E tgt d)"
  by (simp add: io_closed_def)

lemma inv_tiny_insert_users:
  assumes "io_closed I E" and "put_closed I"
  shows "inv I (tiny_insert_users E i us)"
proof (induction us arbitrary: i)
  case Nil
  show ?case by (simp add: inv_return)
next
  case (Cons u us)
  have "\<And>d. inv I (put_user i d :: (unit, 'a, 'b) prog)"
    using assms(2) by (simp add: put_closed_def)
  then show ?case
    by (simp add: inv_bind inv_insert_ref [OF assms(1)] Cons.IH)
qed

lemma inv_tiny_insert_orders:
  assumes "io_closed I E" and "put_closed I"
  shows "inv I (tiny_insert_orders E i us)"
proof (induction us arbitrary: i)
  case Nil
  show ?case by (simp add: inv_return)
next
  case (Cons u us)
  have "\<And>d. inv I (put_order i d :: (unit, 'a, 'b) prog)"
    using assms(2) by (simp add: put_closed_def)
  then show ?case
    by (simp add: inv_bind inv_insert_ref [OF assms(1)] Cons.IH)
qed

lemma inv_sqlite_funcs:
  assumes "io_closed I E"
  shows "inv I (sqlite_insert_data E)" "inv I (sqlite_read_point E)" "inv I (sqlite_read_range E)"
    "inv I (sqlite_read_user_orders E)" "inv I (sqlite_update_op E)" "inv I (sqlite_delete_op E)"
  unfolding sqlite_insert_data_def sqlite_read_point_def sqlite_read_range_def
    sqlite_read_user_orders_def sqlite_update_op_def sqlite_delete_op_def
  by (intro inv_intro assms)+

lemma inv_mysql_funcs:
  assumes "io_closed I E"
  shows "inv I (mysql_insert_data E)" "inv I (mysql_read_point E)" "inv I (mysql_read_range E)"
    "inv I (mysql_read_user_orders E)" "inv I (mysql_update_op E)" "inv I (mysql_delete_op E)"
  unfolding mysql_insert_data_def mysql_read_point_def mysql_read_range_def
    mysql_read_user_orders_def mysql_update_op_def mysql_delete_op_def
  by (intro inv_intro assms)+

lemma inv_mongodb_funcs:
  assumes "io_closed I E"
  shows "inv I (mongodb_insert_data E)" "inv I (mongodb_read_point E)" "inv I (mongodb_read_range E)"
    "inv I (mongodb_read_user_orders E)" "inv I (mongodb_update_op E)" "inv I (mongodb_delete_op E)"
  unfolding mongodb_insert_data_def mongodb_read_point_def mongodb_read_range_def
    mongodb_read_user_orders_def mongodb_update_op_def mongodb_delete_op_def
  by (intro inv_intro assms)+

lemma inv_tinydb_insert_data:
  assumes "io_closed I E" and "put_closed I"
  shows "inv I (tinydb_insert_data E)"
  unfolding tinydb_insert_data_def
  by (intro inv_intro assms inv_tiny_insert_users inv_tiny_insert_orders)

lemma inv_tinydb_funcs:
  assumes "io_closed I E"
  shows "inv I (tinydb_read_point E)" "inv I (tinydb_read_range E)"
    "inv I (tinydb_read_user_orders E)" "inv I (tinydb_update_op E)" "inv I (tinydb_delete_op E)"
  unfolding tinydb_read_point_def tinydb_read_range_def
    tinydb_read_user_orders_def tinydb_update_op_def tinydb_delete_op_def
  by (intro inv_intro assms)+

lemma inv_measure [inv_intro]:
  assumes "io_closed I E" and "inv I (time_perf_counter E)" and "inv I func"
  shows "inv I (measure E F b n func)"
  unfolding measure_def Let_def
  by (intro inv_intro assms inv_print [OF assms(1)])

lemma inv_run_sqlite:
  assumes "io_closed I E" and "inv I (time_perf_counter E)"
  shows "inv I (run_sqlite E F)"
  unfolding run_sqlite_def Let_def
  by (intro inv_intro assms inv_sqlite_funcs inv_print [OF assms(1)])

lemma inv_run_mysql:
  assumes "io_closed I E" and "inv I (time_perf_counter E)"
  shows "inv I (run_mysql E F)"
  unfolding run_mysql_def Let_def
  by (intro inv_intro assms inv_mysql_funcs inv_print [OF assms(1)])

lemma inv_run_mongodb:
  assumes "io_closed I E" and "inv I (time_perf_counter E)"
  shows "inv I (run_mongodb E F)"
  unfolding run_mongodb_def Let_def
  by (intro inv_intro assms inv_mongodb_funcs inv_print [OF assms(1)])

lemma inv_run_tinydb:
  assumes "io_closed I E" and "inv I (time_perf_counter E)" and "inv I (tinydb_insert_data E)"
  shows "inv I (run_tinydb E F)"
  unfolding run_tinydb_def Let_def
  by (intro inv_intro assms inv_tinydb_funcs inv_print [OF assms(1)])

lemma call_fst: "fst (call E c st) = fst (driver E c (world st))"
  by (simp add: call_def split: prod.splits)

lemma call_snd:
  "snd (call E c st) =
     emit (Called c (fst (driver E c (world st)))) (st\<lparr>world := snd (driver E c (world st))\<rparr>)"
  by (simp add: call_def split: prod.splits)

lemma print_snd: "snd (print s st) = emit (Printed s) st"
  by (simp add: print_def)

lemma os_path_exists_snd:
  "snd (os_path_exists E p st) =
     emit (Exists p (fst (path_exists E p (world st)))) (st\<lparr>world := snd (path_exists E p (world st))\<rparr>)"
  by (simp add: os_path_exists_def split: prod.splits)

lemma insert_ref_snd:
  "snd (insert_ref E tgt d st) =
     emit (Inserted tgt d (fst (fst (insert_doc E tgt d (world st))))
             (snd (fst (insert_doc E tgt d (world st)))))
       (st\<lparr>world := snd (insert_doc E tgt d (world st))\<rparr>)"
  by (simp add: insert_ref_def split: prod.splits)

lemma time_perf_counter_eq:
  "time_perf_counter E st =
     (Inr (fst (perf_counter E (world st))),
      emit (Timer (fst (perf_counter E (world st)))) (st\<lparr>world := snd (perf_counter E (world st))\<rparr>))"
  by (simp add: time_perf_counter_def split: prod.splits)

lemma timer_readings_append:
  "timer_readings (xs @ ys) = timer_readings xs @ timer_readings ys"
  by (induction xs rule: timer_readings.induct) simp_all

lemmas io_snd = call_snd print_snd os_path_exists_snd insert_ref_snd

lemma has_data_io_closed: "io_closed (has_data U O') E"
  by (simp add: io_closed_def inv_def has_data_def io_snd)

lemma has_data_timer: "inv (has_data U O') (time_perf_counter E)"
  by (simp add: inv_def has_data_def time_perf_counter_eq)

lemma silent_io_closed: "io_closed (silent L) E"
  by (simp add: io_closed_def inv_def silent_def io_snd timer_readings_append)

lemma silent_put_closed: "put_closed (silent L)"
  by (simp add: put_closed_def inv_def silent_def put_user_def put_order_def)

lemma clocked_io_closed:
  assumes "monotonic_clock E clk"
  shows "io_closed (clocked clk L0) E"
proof -
  have c: "\<And>c w. clk w \<le> clk (snd (driver E c w))"
    and p: "\<And>p w. clk w \<le> clk (snd (path_exists E p w))"
    and i: "\<And>tgt d w. clk w \<le> clk (snd (insert_doc E tgt d w))"
    using assms by (simp_all add: monotonic_clock_def)
  have "\<And>c. inv (clocked clk L0) (call E c)"
    unfolding inv_def clocked_def call_snd
    by (auto simp: timer_readings_append intro: order_trans [OF _ c])
  moreover have "\<And>s. inv (clocked clk L0) (print s)"
    unfolding inv_def clocked_def print_snd
    by (auto simp: timer_readings_append)
  moreover have "\<And>p. inv (clocked clk L0) (os_path_exists E p)"
    unfolding inv_def clocked_def os_path_exists_snd
    by (auto simp: timer_readings_append intro: order_trans [OF _ p])
  moreover have "\<And>tgt d. inv (clocked clk L0) (insert_ref E tgt d)"
    unfolding inv_def clocked_def insert_ref_snd
    by (auto simp: timer_readings_append intro: order_trans [OF _ i])
  ultimately show ?thesis by (simp add: io_closed_def)
qed

lemma clocked_put_closed: "put_closed (clocked clk L0)"
  by (simp add: put_closed_def inv_def clocked_def put_user_def put_order_def)

lemma clocked_timer:
  assumes "monotonic_clock E clk"
  shows "inv (clocked clk L0) (time_perf_counter E)"
  unfolding inv_def
proof (intro allI impI)
  fix st :: "('a, 'b) sys"
  assume "clocked clk L0 st"
  then obtain L where L: "timer_readings (trace st) = L0 @ L" "sorted L"
    "\<forall>t \<in> set L. t \<le> clk (world st)"
    by (auto simp: clocked_def)
  let ?t = "fst (perf_counter E (world st))"
  have lo: "clk (world st) \<le> ?t" and hi: "?t \<le> clk (snd (perf_counter E (world st)))"
    using assms by (simp_all add: monotonic_clock_def)
  have "sorted (L @ [?t])"
    using L(2,3) lo by (auto simp: sorted_append intro: order_trans)
  moreover have "\<forall>t \<in> set (L @ [?t]). t \<le> clk (snd (perf_counter E (world st)))"
    using L(3) lo hi by (auto intro: order_trans)
  ultimately show "clocked clk L0 (snd (time_perf_counter E st))"
    unfolding clocked_def time_perf_counter_eq using L(1)
    by (intro exI [of _ "L @ [?t]"]) (simp add: timer_readings_append)
qed

lemma bind_InrE:
  assumes "bind f g st = (Inr y, st'')"
  obtains x st' where "f st = (Inr x, st')" and "g x st' = (Inr y, st'')"
proof (cases "f st")
  case (Pair r st1)
  show ?thesis
  proof (cases r)
    case (Inl e)
    with Pair assms show ?thesis by (simp add: bind_def)
  next
    case (Inr x)
    with Pair assms that show ?thesis by (simp add: bind_def)
  qed
qed

lemma silent_readings:
  assumes "\<And>L. inv (silent L) f" and "f st = (r, st')"
  shows "timer_readings (trace st') = timer_readings (trace st)"
  using assms(1) [of "timer_readings (trace st)"] assms(2)
  by (auto simp: inv_def silent_def dest: spec [of _ st])

lemma call_readings:
  "call E c st = (r, st') \<Longrightarrow> timer_readings (trace st') = timer_readings (trace st)"
  by (rule silent_readings [OF inv_call [OF silent_io_closed]])

lemma os_path_exists_readings:
  "os_path_exists E p st = (r, st') \<Longrightarrow> timer_readings (trace st') = timer_readings (trace st)"
  by (rule silent_readings [OF inv_os_path_exists [OF silent_io_closed]])

lemma remove_readings:
  "(if ex then call E c else return ()) st = (r, st') \<Longrightarrow>
     timer_readings (trace st') = timer_readings (trace st)"
  by (rule silent_readings [OF inv_if [OF inv_call [OF silent_io_closed] inv_return]])

lemma return_Inr: "return x st = (Inr y, st') \<Longrightarrow> y = x \<and> st' = st"
  by (simp add: return_def)

lemma measure_Inr:
  assumes "\<And>L. inv (silent L) func" and "measure E F b n func st = (Inr b', st')"
  shows "\<exists>s e. timer_readings (trace st') = timer_readings (trace st) @ [s, e] \<and>
           b' = b\<lparr>results := AList.update n (fl_elapsed_ms F e s) (results b)\<rparr>"
proof -
  from assms(2) obtain s st1 where t1: "time_perf_counter E st = (Inr s, st1)"
    and r1: "bind func (\<lambda>_. bind (time_perf_counter E) (\<lambda>end.
       let duration_ms = fl_elapsed_ms F end s;
         self' = b\<lparr>results := AList.update n duration_ms (results b)\<rparr>
     in bind (print (''['' @ db_name b @ ''] '' @ n @ '': '' @
                     fl_format2 F duration_ms @ '' ms''))
          (\<lambda>_. return self'))) st1 = (Inr b', st')"
    unfolding measure_def by (rule bind_InrE)
  from r1 obtain u st2 where f: "func st1 = (Inr u, st2)"
    and r2: "bind (time_perf_counter E) (\<lambda>end.
       let duration_ms = fl_elapsed_ms F end s;
         self' = b\<lparr>results := AList.update n duration_ms (results b)\<rparr>
     in bind (print (''['' @ db_name b @ ''] '' @ n @ '': '' @
                     fl_format2 F duration_ms @ '' ms''))
          (\<lambda>_. return self')) st2 = (Inr b', st')"
    by (rule bind_InrE)
  from r2 obtain e st3 where t2: "time_perf_counter E st2 = (Inr e, st3)"
    and r3: "bind (print (''['' @ db_name b @ ''] '' @ n @ '': '' @
                     fl_format2 F (fl_elapsed_ms F e s) @ '' ms''))
          (\<lambda>_. return (b\<lparr>results := AList.update n (fl_elapsed_ms F e s) (results b)\<rparr>)) st3 = (Inr b', st')"
    unfolding Let_def by (rule bind_InrE)
  have a: "timer_readings (trace st1) = timer_readings (trace st) @ [s]"
    using t1 by (auto simp: time_perf_counter_eq timer_readings_append)
  have b: "timer_readings (trace st2) = timer_readings (trace st1)"
    using assms(1) f by (rule silent_readings)
  have c: "timer_readings (trace st3) = timer_readings (trace st2) @ [e]"
    using t2 by (auto simp: time_perf_counter_eq timer_readings_append)
  have d: "timer_readings (trace st') = timer_readings (trace st3) \<and>
      b' = b\<lparr>results := AList.update n (fl_elapsed_ms F e s) (results b)\<rparr>"
    using r3 by (auto simp: bind_def print_def return_def timer_readings_append)
  show ?thesis using a b c d by simp
qed

lemmas sqlite_measure_Inr =
  measure_Inr [OF inv_sqlite_funcs(1) [OF silent_io_closed]]
  measure_Inr [OF inv_sqlite_funcs(2) [OF silent_io_closed]]
  measure_Inr [OF inv_sqlite_funcs(3) [OF silent_io_closed]]
  measure_Inr [OF inv_sqlite_funcs(4) [OF silent_io_closed]]
  measure_Inr [OF inv_sqlite_funcs(5) [OF silent_io_closed]]
  measure_Inr [OF inv_sqlite_funcs(6) [OF silent_io_closed]]

lemma run_sqlite_Inr:
  assumes "run_sqlite E F st = (Inr res, st')"
  shows "\<exists>s1 e1 s2 e2 s3 e3 s4 e4 s5 e5 s6 e6.
     timer_readings (trace st') =
       timer_readings (trace st) @ [s1, e1, s2, e2, s3, e3, s4, e4, s5, e5, s6, e6] \<and>
     res = [(''Create'', fl_elapsed_ms F e1 s1), (''Read-1 Point'', fl_elapsed_ms F e2 s2),
            (''Read-2 Range'', fl_elapsed_ms F e3 s3), (''Read-3 UserOrders'', fl_elapsed_ms F e4 s4),
            (''Update'', fl_elapsed_ms F e5 s5), (''Delete'', fl_elapsed_ms F e6 s6)]"
  using assms unfolding run_sqlite_def Let_def
  apply (elim bind_InrE)
  apply (drule sqlite_measure_Inr call_readings os_path_exists_readings remove_readings return_Inr)+
  apply (auto simp: Benchmark_def)
  done

lemma totalI:
  assumes "inv P f" and "\<And>st. P st \<Longrightarrow> \<exists>x. fst (f st) = Inr x"
  shows "total P f (\<lambda>_. P)"
  unfolding total_def
proof (intro allI impI)
  fix st
  assume P: "P st"
  then obtain x where "fst (f st) = Inr x" using assms(2) by blast
  moreover have "P (snd (f st))" using assms(1) P by (simp add: inv_def)
  ultimately show "\<exists>x st'. f st = (Inr x, st') \<and> P st'"
    by (cases "f st") auto
qed

lemma total_return: "total P (return x) (\<lambda>_. P)"
  by (simp add: total_def return_def)

lemma total_bind:
  assumes "total P f Q" and "\<And>x. total (Q x) (g x) R"
  shows "total P (bind f g) R"
  unfolding total_def
proof (intro allI impI)
  fix st
  assume "P st"
  then obtain x st1 where f: "f st = (Inr x, st1)" and Q: "Q x st1"
    using assms(1) by (auto simp: total_def)
  from assms(2) [of x] Q obtain y st2 where "g x st1 = (Inr y, st2)" and "R y st2"
    by (auto simp: total_def)
  then show "\<exists>y st'. bind f g st = (Inr y, st') \<and> R y st'"
    using f by (simp add: bind_def)
qed

lemma total_for_each:
  assumes "\<And>x. x \<in> set xs \<Longrightarrow> total P (body x) (\<lambda>_. P)"
  shows "total P (for_each xs body) (\<lambda>_. P)"
  using assms
proof (induction xs)
  case Nil
  show ?case by (simp add: total_return)
next
  case (Cons x xs)
  show ?case
    unfolding for_each.simps
    by (rule total_bind [where Q = "\<lambda>_. P"]) (simp_all add: Cons)
qed

lemma total_repeat:
  assumes "total P body (\<lambda>_. P)"
  shows "total P (repeat n body) (\<lambda>_. P)"
proof (induction n)
  case 0
  show ?case by (simp add: total_return)
next
  case (Suc n)
  show ?case
    unfolding repeat.simps
    by (rule total_bind [where Q = "\<lambda>_. P"]) (simp_all add: assms Suc)
qed

lemma total_call:
  assumes "only_guarded_fail E" and "io_closed P E" and "\<not> guarded_call c"
  shows "total P (call E c) (\<lambda>_. P)"
proof (rule totalI)
  show "inv P (call E c)" using assms(2) by (rule inv_call)
  show "\<exists>x. fst (call E c st) = Inr x" for st
    using assms(1,3) by (simp add: call_fst only_guarded_fail_def)
qed

lemma total_print:
  assumes "io_closed P E"
  shows "total P (print s) (\<lambda>_. P)"
proof (rule totalI)
  show "inv P (print s)" using assms by (rule inv_print)
  show "\<exists>x. fst (print s st) = Inr x" for st by (simp add: print_def)
qed

lemma total_os_path_exists:
  assumes "io_closed P E"
  shows "total P (os_path_exists E p) (\<lambda>_. P)"
proof (rule totalI)
  show "inv P (os_path_exists E p)" using assms by (rule inv_os_path_exists)
  show "\<exists>x. fst (os_path_exists E p st) = Inr x" for st
    by (simp add: os_path_exists_def split: prod.splits)
qed

lemma total_time_perf_counter:
  assumes "inv P (time_perf_counter E)"
  shows "total P (time_perf_counter E) (\<lambda>_. P)"
proof (rule totalI)
  show "inv P (time_perf_counter E)" by (rule assms)
  show "\<exists>x. fst (time_perf_counter E st) = Inr x" for st
    by (simp add: time_perf_counter_eq)
qed

lemma total_insert_ref:
  assumes "only_guarded_fail E" and "io_closed P E"
  shows "total P (insert_ref E tgt d) (\<lambda>_. P)"
proof (rule totalI)
  show "inv P (insert_ref E tgt d)" using assms(2) by (rule inv_insert_ref)
  show "\<exists>x. fst (insert_ref E tgt d st) = Inr x" for st
    using assms(1) [unfolded only_guarded_fail_def, THEN conjunct2, rule_format, of tgt d "world st"]
    by (cases "insert_doc E tgt d (world st)") (auto simp: insert_ref_def)
qed

lemma total_getitems:
  assumes "set ks \<subseteq> fst ` set d"
  shows "total P (getitems d ks) (\<lambda>_. P)"
  using assms
proof (induction ks)
  case Nil
  show ?case by (simp add: total_return)
next
  case (Cons k ks)
  then have "k \<in> fst ` set d" by simp
  then obtain v where v: "map_of d k = Some v"
    by (metis domD dom_map_of_conv_image_fst)
  have one: "total P (getitem d k) (\<lambda>_. P)"
    by (simp add: total_def getitem_def v)
  have rest: "total P (getitems d ks) (\<lambda>_. P)" using Cons by simp
  show ?case
    unfolding getitems.simps
    by (intro total_bind [where Q = "\<lambda>_. P"] one rest total_return)
qed

lemma total_measure:
  assumes "io_closed P E" and "inv P (time_perf_counter E)" and "total P func (\<lambda>_. P)"
  shows "total P (measure E F b n func) (\<lambda>_. P)"
  unfolding measure_def Let_def
  by (intro total_bind [where Q = "\<lambda>_. P"] total_time_perf_counter assms total_return
        total_print [OF assms(1)])

lemma total_get_users:
  assumes "total (has_data U O') (g U) R"
  shows "total (has_data U O') (bind get_users g) R"
  using assms by (auto simp: total_def bind_def get_users_def has_data_def)

lemma total_get_orders:
  assumes "total (has_data U O') (g O') R"
  shows "total (has_data U O') (bind get_orders g) R"
  using assms by (auto simp: total_def bind_def get_orders_def has_data_def)

lemma try_except_InrE:
  assumes "try_except body handler rest st = (Inr y, st'')"
  obtains (caught) e st' where "body st = (Inl e, st')" and "handler e st' = (Inr y, st'')"
  | (passed) x st' where "body st = (Inr x, st')" and "rest x st' = (Inr y, st'')"
proof (cases "body st")
  case (Pair r st1)
  show ?thesis
  proof (cases r)
    case (Inl e)
    with Pair assms caught show ?thesis by (simp add: try_except_def)
  next
    case (Inr x)
    with Pair assms passed show ?thesis by (simp add: try_except_def)
  qed
qed

lemma print_readings:
  "print s st = (r, st') \<Longrightarrow> timer_readings (trace st') = timer_readings (trace st)"
  by (rule silent_readings [OF inv_print [OF silent_io_closed]])

lemmas mysql_measure_Inr =
  measure_Inr [OF inv_mysql_funcs(1) [OF silent_io_closed]]
  measure_Inr [OF inv_mysql_funcs(2) [OF silent_io_closed]]
  measure_Inr [OF inv_mysql_funcs(3) [OF silent_io_closed]]
  measure_Inr [OF inv_mysql_funcs(4) [OF silent_io_closed]]
  measure_Inr [OF inv_mysql_funcs(5) [OF silent_io_closed]]
  measure_Inr [OF inv_mysql_funcs(6) [OF silent_io_closed]]

lemmas mongodb_measure_Inr =
  measure_Inr [OF inv_mongodb_funcs(1) [OF silent_io_closed]]
  measure_Inr [OF inv_mongodb_funcs(2) [OF silent_io_closed]]
  measure_Inr [OF inv_mongodb_funcs(3) [OF silent_io_closed]]
  measure_Inr [OF inv_mongodb_funcs(4) [OF silent_io_closed]]
  measure_Inr [OF inv_mongodb_funcs(5) [OF silent_io_closed]]
  measure_Inr [OF inv_mongodb_funcs(6) [OF silent_io_closed]]

lemmas tinydb_measure_Inr =
  measure_Inr [OF inv_tinydb_insert_data [OF silent_io_closed silent_put_closed]]
  measure_Inr [OF inv_tinydb_funcs(1) [OF silent_io_closed]]
  measure_Inr [OF inv_tinydb_funcs(2) [OF silent_io_closed]]
  measure_Inr [OF inv_tinydb_funcs(3) [OF silent_io_closed]]
  measure_Inr [OF inv_tinydb_funcs(4) [OF silent_io_closed]]
  measure_Inr [OF inv_tinydb_funcs(5) [OF silent_io_closed]]

lemma run_tinydb_Inr:
  assumes "run_tinydb E F st = (Inr res, st')"
  shows "\<exists>s1 e1 s2 e2 s3 e3 s4 e4 s5 e5 s6 e6.
     timer_readings (trace st') =
       timer_readings (trace st) @ [s1, e1, s2, e2, s3, e3, s4, e4, s5, e5, s6, e6] \<and>
     res = [(''Create'', fl_elapsed_ms F e1 s1), (''Read-1 Point'', fl_elapsed_ms F e2 s2),
            (''Read-2 Range'', fl_elapsed_ms F e3 s3), (''Read-3 UserOrders'', fl_elapsed_ms F e4 s4),
            (''Update'', fl_elapsed_ms F e5 s5), (''Delete'', fl_elapsed_ms F e6 s6)]"
  using assms unfolding run_tinydb_def Let_def
  apply (elim bind_InrE)
  apply (drule tinydb_measure_Inr call_readings os_path_exists_readings remove_readings return_Inr)+
  apply (auto simp: Benchmark_def)
  done

lemma run_mysql_Inr:
  assumes "run_mysql E F st = (Inr res, st')"
  shows "(res = [] \<and> timer_readings (trace st') = timer_readings (trace st) \<and>
          (\<exists>e. fst (call E (MysqlConnect MYSQL_CONFIG) st) = Inl e)) \<or>
    (\<exists>s1 e1 s2 e2 s3 e3 s4 e4 s5 e5 s6 e6.
     timer_readings (trace st') =
       timer_readings (trace st) @ [s1, e1, s2, e2, s3, e3, s4, e4, s5, e5, s6, e6] \<and>
     res = [(''Create'', fl_elapsed_ms F e1 s1), (''Read-1 Point'', fl_elapsed_ms F e2 s2),
            (''Read-2 Range'', fl_elapsed_ms F e3 s3), (''Read-3 UserOrders'', fl_elapsed_ms F e4 s4),
            (''Update'', fl_elapsed_ms F e5 s5), (''Delete'', fl_elapsed_ms F e6 s6)])"
  using assms unfolding run_mysql_def Let_def
proof (cases rule: try_except_InrE)
  case (caught e st1)
  from caught(2) obtain u st2 where "print (''Skipping MySQL: '' @ exn_str e) st1 = (Inr u, st2)"
    and "return [] st2 = (Inr res, st')"
    by (rule bind_InrE)
  then have "res = [] \<and> timer_readings (trace st') = timer_readings (trace st1)"
    by (auto dest: print_readings return_Inr)
  then show ?thesis using call_readings [OF caught(1)] caught(1) by simp
next
  case (passed x st1)
  from passed(2) have "\<exists>s1 e1 s2 e2 s3 e3 s4 e4 s5 e5 s6 e6.
     timer_readings (trace st') =
       timer_readings (trace st1) @ [s1, e1, s2, e2, s3, e3, s4, e4, s5, e5, s6, e6] \<and>
     res = [(''Create'', fl_elapsed_ms F e1 s1), (''Read-1 Point'', fl_elapsed_ms F e2 s2),
            (''Read-2 Range'', fl_elapsed_ms F e3 s3), (''Read-3 UserOrders'', fl_elapsed_ms F e4 s4),
            (''Update'', fl_elapsed_ms F e5 s5), (''Delete'', fl_elapsed_ms F e6 s6)]"
    apply (elim bind_InrE)
    apply (drule mysql_measure_Inr call_readings return_Inr)+
    apply (auto simp: Benchmark_def)
    done
  then show ?thesis using call_readings [OF passed(1)] by simp
qed

lemma mongodb_connect_silent:
  "inv (silent L)
     (bind (call E (MongoClient ''mongodb://localhost:27017/''))
        (\<lambda>_. call E (MongoGetDatabase ''shopping_db'')))"
  by (intro inv_intro silent_io_closed)

lemma run_mongodb_Inr:
  assumes "run_mongodb E F st = (Inr res, st')"
  shows "(res = [] \<and> timer_readings (trace st') = timer_readings (trace st) \<and>
          (\<exists>e. fst (bind (call E (MongoClient ''mongodb://localhost:27017/''))
                       (\<lambda>_. call E (MongoGetDatabase ''shopping_db'')) st) = Inl e)) \<or>
    (\<exists>s1 e1 s2 e2 s3 e3 s4 e4 s5 e5 s6 e6.
     timer_readings (trace st') =
       timer_readings (trace st) @ [s1, e1, s2, e2, s3, e3, s4, e4, s5, e5, s6, e6] \<and>
     res = [(''Create'', fl_elapsed_ms F e1 s1), (''Read-1 Point'', fl_elapsed_ms F e2 s2),
            (''Read-2 Range'', fl_elapsed_ms F e3 s3), (''Read-3 UserOrders'', fl_elapsed_ms F e4 s4),
            (''Update'', fl_elapsed_ms F e5 s5), (''Delete'', fl_elapsed_ms F e6 s6)])"
  using assms unfolding run_mongodb_def Let_def
proof (cases rule: try_except_InrE)
  case (caught e st1)
  have body: "timer_readings (trace st1) = timer_readings (trace st)"
    using mongodb_connect_silent caught(1) by (rule silent_readings)
  from caught(2) obtain u st2 where "print (''Skipping MongoDB: '' @ exn_str e) st1 = (Inr u, st2)"
    and "return [] st2 = (Inr res, st')"
    by (rule bind_InrE)
  then have "res = [] \<and> timer_readings (trace st') = timer_readings (trace st1)"
    by (auto dest: print_readings return_Inr)
  then show ?thesis using body caught(1) by simp
next
  case (passed x st1)
  have body: "timer_readings (trace st1) = timer_readings (trace st)"
    using mongodb_connect_silent passed(1) by (rule silent_readings)
  from passed(2) have "\<exists>s1 e1 s2 e2 s3 e3 s4 e4 s5 e5 s6 e6.
     timer_readings (trace st') =
       timer_readings (trace st1) @ [s1, e1, s2, e2, s3, e3, s4, e4, s5, e5, s6, e6] \<and>
     res = [(''Create'', fl_elapsed_ms F e1 s1), (''Read-1 Point'', fl_elapsed_ms F e2 s2),
            (''Read-2 Range'', fl_elapsed_ms F e3 s3), (''Read-3 UserOrders'', fl_elapsed_ms F e4 s4),
            (''Update'', fl_elapsed_ms F e5 s5), (''Delete'', fl_elapsed_ms F e6 s6)]"
    apply (elim bind_InrE)
    apply (drule mongodb_measure_Inr call_readings return_Inr)+
    apply (auto simp: Benchmark_def)
    done
  then show ?thesis using body by simp
qed

lemma six_windowsI:
  fixes F :: "'f::linorder float_ops"
  assumes "timer_readings (trace st') =
       timer_readings (trace st) @ [s1, e1, s2, e2, s3, e3, s4, e4, s5, e5, s6, e6]"
    and "res = [(''Create'', fl_elapsed_ms F e1 s1), (''Read-1 Point'', fl_elapsed_ms F e2 s2),
            (''Read-2 Range'', fl_elapsed_ms F e3 s3), (''Read-3 UserOrders'', fl_elapsed_ms F e4 s4),
            (''Update'', fl_elapsed_ms F e5 s5), (''Delete'', fl_elapsed_ms F e6 s6)]"
    and "sorted (new_readings st st')"
  shows "six_windows F st st' res"
proof -
  have "new_readings st st' = [s1, e1, s2, e2, s3, e3, s4, e4, s5, e5, s6, e6]"
    by (simp add: new_readings_def assms(1))
  then show ?thesis
    using assms(2,3) by (simp add: six_windows_def operation_names_def)
qed

lemma clocked_sorted:
  assumes "inv (clocked clk (timer_readings (trace st))) f"
  shows "sorted (new_readings st (snd (f st)))"
proof -
  have "clocked clk (timer_readings (trace st)) st"
    by (simp add: clocked_def)
  then have "clocked clk (timer_readings (trace st)) (snd (f st))"
    using assms by (simp add: inv_def)
  then show ?thesis
    by (auto simp: clocked_def new_readings_def)
qed

lemma runs_sorted:
  assumes "monotonic_clock E clk"
  shows "sorted (new_readings st (snd (run_sqlite E F st)))"
    and "sorted (new_readings st (snd (run_mysql E F st)))"
    and "sorted (new_readings st (snd (run_mongodb E F st)))"
    and "sorted (new_readings st (snd (run_tinydb E F st)))"
  by (intro clocked_sorted [where clk = clk] inv_run_sqlite inv_run_mysql inv_run_mongodb
        inv_run_tinydb clocked_io_closed clocked_timer inv_tinydb_insert_data clocked_put_closed
        assms)+

text \<open>
  C5. With a monotonic clock, the clock readings that any of the four runs adds to the
  history are in order, however the run ends: every window starts no earlier than the
  window before it ends. A run that returns its results took exactly twelve readings, the
  start and end of six windows, and maps the \<open>i\<close>-th operation name to the duration of the
  \<open>i\<close>-th window and to nothing else; the MySQL and MongoDB runs may instead have been
  skipped, with no reading and an empty mapping.
\<close>

theorem timed_windows_disjoint:
  assumes "monotonic_clock E clk"
  shows "sorted (new_readings st (snd (run_mysql E F st))) \<and>
         sorted (new_readings st (snd (run_sqlite E F st))) \<and>
         sorted (new_readings st (snd (run_mongodb E F st))) \<and>
         sorted (new_readings st (snd (run_tinydb E F st))) \<and>
         (run_mysql E F st = (Inr res, st') \<longrightarrow>
            six_windows F st st' res \<or> res = [] \<and> new_readings st st' = []) \<and>
         (run_sqlite E F st = (Inr res, st') \<longrightarrow> six_windows F st st' res) \<and>
         (run_mongodb E F st = (Inr res, st') \<longrightarrow>
            six_windows F st st' res \<or> res = [] \<and> new_readings st st' = []) \<and>
         (run_tinydb E F st = (Inr res, st') \<longrightarrow> six_windows F st st' res)"
proof -
  note sorted = runs_sorted [OF assms, of st F]
  have mysql: "six_windows F st st' res \<or> res = [] \<and> new_readings st st' = []"
    if run: "run_mysql E F st = (Inr res, st')"
  proof -
    have "sorted (new_readings st st')" using sorted(2) run by simp
    then show ?thesis
      using run_mysql_Inr [OF run] by (auto intro: six_windowsI simp: new_readings_def)
  qed
  have sqlite: "six_windows F st st' res" if run: "run_sqlite E F st = (Inr res, st')"
  proof -
    have "sorted (new_readings st st')" using sorted(1) run by simp
    then show ?thesis
      using run_sqlite_Inr [OF run] by (auto intro: six_windowsI)
  qed
  have mongodb: "six_windows F st st' res \<or> res = [] \<and> new_readings st st' = []"
    if run: "run_mongodb E F st = (Inr res, st')"
  proof -
    have "sorted (new_readings st st')" using sorted(3) run by simp
    then show ?thesis
      using run_mongodb_Inr [OF run] by (auto intro: six_windowsI simp: new_readings_def)
  qed
  have tinydb: "six_windows F st st' res" if run: "run_tinydb E F st = (Inr res, st')"
  proof -
    have "sorted (new_readings st st')" using sorted(4) run by simp
    then show ?thesis
      using run_tinydb_Inr [OF run] by (auto intro: six_windowsI)
  qed
  show ?thesis
    using sorted mysql sqlite mongodb tinydb by blast
qed

lemma total_try_except:
  assumes "inv P body" and "\<And>e. total P (handler e) Q" and "\<And>x. total P (rest x) Q"
  shows "total P (try_except body handler rest) Q"
  unfolding total_def
proof (intro allI impI)
  fix st
  assume P: "P st"
  then have mid: "P (snd (body st))" using assms(1) by (simp add: inv_def)
  show "\<exists>x st'. try_except body handler rest st = (Inr x, st') \<and> Q x st'"
  proof (cases "body st")
    case (Pair r st1)
    show ?thesis
    proof (cases r)
      case (Inl e)
      then show ?thesis
        using Pair mid assms(2) [of e] by (simp add: try_except_def total_def)
    next
      case (Inr x)
      then show ?thesis
        using Pair mid assms(3) [of x] by (simp add: try_except_def total_def)
    qed
  qed
qed

lemma total_if:
  "total P f Q \<Longrightarrow> total P g Q \<Longrightarrow> total P (if b then f else g) Q"
  by simp

lemma total_insert_rows:
  assumes "only_guarded_fail E" and "io_closed P E" and "\<forall>d \<in> set ds. set ks \<subseteq> fst ` set d"
  shows "total P (for_each ds (\<lambda>d. bind (getitems d ks) (\<lambda>args. call E (Execute cn sql args))))
           (\<lambda>_. P)"
proof (rule total_for_each)
  fix d
  assume "d \<in> set ds"
  then have keys: "set ks \<subseteq> fst ` set d" using assms(3) by blast
  show "total P (bind (getitems d ks) (\<lambda>args. call E (Execute cn sql args))) (\<lambda>_. P)"
    by (intro total_bind [where Q = "\<lambda>_. P"] total_getitems keys total_call assms(1,2)) simp
qed

lemma total_sqlite_funcs:
  assumes "only_guarded_fail E" and "users_have_keys U" and "orders_have_keys O'"
  shows "total (has_data U O') (sqlite_insert_data E) (\<lambda>_. has_data U O')"
    and "total (has_data U O') (sqlite_read_point E) (\<lambda>_. has_data U O')"
    and "total (has_data U O') (sqlite_read_range E) (\<lambda>_. has_data U O')"
    and "total (has_data U O') (sqlite_read_user_orders E) (\<lambda>_. has_data U O')"
    and "total (has_data U O') (sqlite_update_op E) (\<lambda>_. has_data U O')"
    and "total (has_data U O') (sqlite_delete_op E) (\<lambda>_. has_data U O')"
proof -
  note call = total_call [OF assms(1) has_data_io_closed]
  show "total (has_data U O') (sqlite_insert_data E) (\<lambda>_. has_data U O')"
    unfolding sqlite_insert_data_def
    apply (rule total_get_users)
    apply (rule total_bind [where Q = "\<lambda>_. has_data U O'"])
     apply (rule total_insert_rows [OF assms(1) has_data_io_closed])
     apply (use assms(2) in \<open>simp add: users_have_keys_def\<close>)
    apply (rule total_get_orders)
    apply (rule total_bind [where Q = "\<lambda>_. has_data U O'"])
     apply (rule total_insert_rows [OF assms(1) has_data_io_closed])
     apply (use assms(3) in \<open>simp add: orders_have_keys_def\<close>)
    apply (rule call)
    apply simp
    done
  show "total (has_data U O') (sqlite_read_point E) (\<lambda>_. has_data U O')"
    unfolding sqlite_read_point_def
    by (intro total_repeat total_bind [where Q = "\<lambda>_. has_data U O'"] call) simp_all
  show "total (has_data U O') (sqlite_read_range E) (\<lambda>_. has_data U O')"
    unfolding sqlite_read_range_def
    by (intro total_bind [where Q = "\<lambda>_. has_data U O'"] call) simp_all
  show "total (has_data U O') (sqlite_read_user_orders E) (\<lambda>_. has_data U O')"
    unfolding sqlite_read_user_orders_def
    by (intro total_repeat total_bind [where Q = "\<lambda>_. has_data U O'"] call) simp_all
  show "total (has_data U O') (sqlite_update_op E) (\<lambda>_. has_data U O')"
    unfolding sqlite_update_op_def
    by (intro total_bind [where Q = "\<lambda>_. has_data U O'"] call) simp_all
  show "total (has_data U O') (sqlite_delete_op E) (\<lambda>_. has_data U O')"
    unfolding sqlite_delete_op_def
    by (intro total_bind [where Q = "\<lambda>_. has_data U O'"] call) simp_all
qed

lemma total_run_sqlite:
  assumes "only_guarded_fail E" and "users_have_keys U" and "orders_have_keys O'"
  shows "total (has_data U O') (run_sqlite E F) (\<lambda>_. has_data U O')"
  unfolding run_sqlite_def Let_def
  by (intro total_bind [where Q = "\<lambda>_. has_data U O'"] total_if total_return
        total_os_path_exists total_measure has_data_io_closed has_data_timer
        total_sqlite_funcs [OF assms] total_call [OF assms(1) has_data_io_closed])
     simp_all

lemma total_mysql_funcs:
  assumes "only_guarded_fail E" and "users_have_keys U" and "orders_have_keys O'"
  shows "total (has_data U O') (mysql_insert_data E) (\<lambda>_. has_data U O')"
    and "total (has_data U O') (mysql_read_point E) (\<lambda>_. has_data U O')"
    and "total (has_data U O') (mysql_read_range E) (\<lambda>_. has_data U O')"
    and "total (has_data U O') (mysql_read_user_orders E) (\<lambda>_. has_data U O')"
    and "total (has_data U O') (mysql_update_op E) (\<lambda>_. has_data U O')"
    and "total (has_data U O') (mysql_delete_op E) (\<lambda>_. has_data U O')"
proof -
  note call = total_call [OF assms(1) has_data_io_closed]
  show "total (has_data U O') (mysql_insert_data E) (\<lambda>_. has_data U O')"
    unfolding mysql_insert_data_def
    apply (rule total_get_users)
    apply (rule total_bind [where Q = "\<lambda>_. has_data U O'"])
     apply (rule total_insert_rows [OF assms(1) has_data_io_closed])
     apply (use assms(2) in \<open>simp add: users_have_keys_def\<close>)
    apply (rule total_get_orders)
    apply (rule total_bind [where Q = "\<lambda>_. has_data U O'"])
     apply (rule total_insert_rows [OF assms(1) has_data_io_closed])
     apply (use assms(3) in \<open>simp add: orders_have_keys_def\<close>)
    apply (rule call)
    apply simp
    done
  show "total (has_data U O') (mysql_read_point E) (\<lambda>_. has_data U O')"
    unfolding mysql_read_point_def
    by (intro total_repeat total_bind [where Q = "\<lambda>_. has_data U O'"] call) simp_all
  show "total (has_data U O') (mysql_read_range E) (\<lambda>_. has_data U O')"
    unfolding mysql_read_range_def
    by (intro total_repeat total_bind [where Q = "\<lambda>_. has_data U O'"] call) simp_all
  show "total (has_data U O') (mysql_read_user_orders E) (\<lambda>_. has_data U O')"
    unfolding mysql_read_user_orders_def
    by (intro total_repeat total_bind [where Q = "\<lambda>_. has_data U O'"] call) simp_all
  show "total (has_data U O') (mysql_update_op E) (\<lambda>_. has_data U O')"
    unfolding mysql_update_op_def
    by (intro total_repeat total_bind [where Q = "\<lambda>_. has_data U O'"] call) simp_all
  show "total (has_data U O') (mysql_delete_op E) (\<lambda>_. has_data U O')"
    unfolding mysql_delete_op_def
    by (intro total_repeat total_bind [where Q = "\<lambda>_. has_data U O'"] call) simp_all
qed

lemma total_run_mysql:
  assumes "only_guarded_fail E" and "users_have_keys U" and "orders_have_keys O'"
  shows "total (has_data U O') (run_mysql E F) (\<lambda>_. has_data U O')"
  unfolding run_mysql_def Let_def
  by (intro total_try_except inv_call has_data_io_closed
        total_bind [where Q = "\<lambda>_. has_data U O'"] total_return
        total_print [OF has_data_io_closed [of _ _ E]]
        total_measure has_data_io_closed has_data_timer
        total_mysql_funcs [OF assms] total_call [OF assms(1) has_data_io_closed])
     simp_all

lemma total_mongodb_funcs:
  assumes "only_guarded_fail E"
  shows "total (has_data U O') (mongodb_insert_data E) (\<lambda>_. has_data U O')"
    and "total (has_data U O') (mongodb_read_point E) (\<lambda>_. has_data U O')"
    and "total (has_data U O') (mongodb_read_range E) (\<lambda>_. has_data U O')"
    and "total (has_data U O') (mongodb_read_user_orders E) (\<lambda>_. has_data U O')"
    and "total (has_data U O') (mongodb_update_op E) (\<lambda>_. has_data U O')"
    and "total (has_data U O') (mongodb_delete_op E) (\<lambda>_. has_data U O')"
proof -
  note call = total_call [OF assms(1) has_data_io_closed]
  note ins = total_insert_ref [OF assms(1) has_data_io_closed]
  show "total (has_data U O') (mongodb_insert_data E) (\<lambda>_. has_data U O')"
    unfolding mongodb_insert_data_def
    by (intro total_get_users total_get_orders total_for_each
          total_bind [where Q = "\<lambda>_. has_data U O'"] ins total_return)
  show "total (has_data U O') (mongodb_read_point E) (\<lambda>_. has_data U O')"
    unfolding mongodb_read_point_def by (intro total_repeat call) simp
  show "total (has_data U O') (mongodb_read_range E) (\<lambda>_. has_data U O')"
    unfolding mongodb_read_range_def by (intro call) simp
  show "total (has_data U O') (mongodb_read_user_orders E) (\<lambda>_. has_data U O')"
    unfolding mongodb_read_user_orders_def by (intro total_repeat call) simp
  show "total (has_data U O') (mongodb_update_op E) (\<lambda>_. has_data U O')"
    unfolding mongodb_update_op_def by (intro call) simp
  show "total (has_data U O') (mongodb_delete_op E) (\<lambda>_. has_data U O')"
    unfolding mongodb_delete_op_def by (intro call) simp
qed

lemma total_run_mongodb:
  assumes "only_guarded_fail E"
  shows "total (has_data U O') (run_mongodb E F) (\<lambda>_. has_data U O')"
  unfolding run_mongodb_def Let_def
  by (intro total_try_except inv_bind inv_call has_data_io_closed
        total_bind [where Q = "\<lambda>_. has_data U O'"] total_return
        total_print [OF has_data_io_closed [of _ _ E]]
        total_measure has_data_io_closed has_data_timer
        total_mongodb_funcs [OF assms] total_call [OF assms(1) has_data_io_closed])
     simp_all

lemma anything_io_closed: "io_closed (\<lambda>_. True) E"
  by (simp add: io_closed_def inv_def)

lemma total_tiny_insert_users:
  assumes "only_guarded_fail E"
  shows "total (\<lambda>_. True) (tiny_insert_users E i us) (\<lambda>_ _. True)"
proof (induction us arbitrary: i)
  case Nil
  show ?case by (simp add: total_return)
next
  case (Cons u us)
  have put: "\<And>d. total (\<lambda>_. True) (put_user i d :: (unit, 'a, 'b) prog) (\<lambda>_ _. True)"
    by (simp add: total_def put_user_def)
  show ?case
    unfolding tiny_insert_users.simps
    by (intro total_bind [where Q = "\<lambda>_ _. True"] put Cons.IH
          total_insert_ref [OF assms anything_io_closed])
qed

lemma total_tiny_insert_orders:
  assumes "only_guarded_fail E"
  shows "total (\<lambda>_. True) (tiny_insert_orders E i us) (\<lambda>_ _. True)"
proof (induction us arbitrary: i)
  case Nil
  show ?case by (simp add: total_return)
next
  case (Cons u us)
  have put: "\<And>d. total (\<lambda>_. True) (put_order i d :: (unit, 'a, 'b) prog) (\<lambda>_ _. True)"
    by (simp add: total_def put_order_def)
  show ?case
    unfolding tiny_insert_orders.simps
    by (intro total_bind [where Q = "\<lambda>_ _. True"] put Cons.IH
          total_insert_ref [OF assms anything_io_closed])
qed

lemma total_get_any:
  "(\<And>U. total P (g U) R) \<Longrightarrow> total P (bind get_users g) R"
  "(\<And>U. total P (h U) R) \<Longrightarrow> total P (bind get_orders h) R"
  by (auto simp: total_def bind_def get_users_def get_orders_def)

lemma total_tinydb_funcs:
  assumes "only_guarded_fail E"
  shows "total (\<lambda>_. True) (tinydb_insert_data E) (\<lambda>_ _. True)"
    and "total (\<lambda>_. True) (tinydb_read_point E) (\<lambda>_ _. True)"
    and "total (\<lambda>_. True) (tinydb_read_range E) (\<lambda>_ _. True)"
    and "total (\<lambda>_. True) (tinydb_read_user_orders E) (\<lambda>_ _. True)"
    and "total (\<lambda>_. True) (tinydb_update_op E) (\<lambda>_ _. True)"
    and "total (\<lambda>_. True) (tinydb_delete_op E) (\<lambda>_ _. True)"
proof -
  note call = total_call [OF assms(1) anything_io_closed]
  show "total (\<lambda>_. True) (tinydb_insert_data E) (\<lambda>_ _. True)"
    unfolding tinydb_insert_data_def
    by (intro total_get_any total_bind [where Q = "\<lambda>_ _. True"]
          total_tiny_insert_users total_tiny_insert_orders assms)
  show "total (\<lambda>_. True) (tinydb_read_point E) (\<lambda>_ _. True)"
    unfolding tinydb_read_point_def by (intro total_repeat call) simp
  show "total (\<lambda>_. True) (tinydb_read_range E) (\<lambda>_ _. True)"
    unfolding tinydb_read_range_def by (intro call) simp
  show "total (\<lambda>_. True) (tinydb_read_user_orders E) (\<lambda>_ _. True)"
    unfolding tinydb_read_user_orders_def by (intro total_repeat call) simp
  show "total (\<lambda>_. True) (tinydb_update_op E) (\<lambda>_ _. True)"
    unfolding tinydb_update_op_def by (intro call) simp
  show "total (\<lambda>_. True) (tinydb_delete_op E) (\<lambda>_ _. True)"
    unfolding tinydb_delete_op_def by (intro call) simp
qed

lemma total_run_tinydb:
  assumes "only_guarded_fail E"
  shows "total (\<lambda>_. True) (run_tinydb E F) (\<lambda>_ _. True)"
  unfolding run_tinydb_def Let_def
  by (intro total_bind [where Q = "\<lambda>_ _. True"] total_if total_return
        total_os_path_exists total_measure anything_io_closed
        total_tinydb_funcs [OF assms] total_call [OF assms(1) anything_io_closed])
     (simp_all add: inv_def)

lemma run_keys:
  "run_sqlite E F st = (Inr res, st') \<Longrightarrow> map fst res = operation_names"
  "run_tinydb E F st = (Inr res, st') \<Longrightarrow> map fst res = operation_names"
  "run_mysql E F st = (Inr res, st') \<Longrightarrow>
     res = [] \<and> (\<exists>e. fst (call E (MysqlConnect MYSQL_CONFIG) st) = Inl e) \<or>
     map fst res = operation_names"
  "run_mongodb E F st = (Inr res, st') \<Longrightarrow>
     res = [] \<and> (\<exists>e. fst (bind (call E (MongoClient ''mongodb://localhost:27017/''))
                       (\<lambda>_. call E (MongoGetDatabase ''shopping_db'')) st) = Inl e) \<or>
     map fst res = operation_names"
  by (auto dest!: run_sqlite_Inr run_tinydb_Inr run_mysql_Inr run_mongodb_Inr
        simp: operation_names_def)

lemma has_data_emit: "has_data U O' (emit ev st) = has_data U O' st"
  by (simp add: has_data_def)

lemma totalD:
  assumes "total P f Q" and "P st"
  obtains x st' where "f st = (Inr x, st')" and "Q x st'"
  using assms by (auto simp: total_def)

lemma total_main_benchmarks:
  assumes healthy: "only_guarded_fail E" and wf: "well_formed_data st0"
  shows "\<exists>r1 st1 r2 st2 r3 st3 r4 st4.
     run_mysql E F
       (emit (Printed (nl @ ''Starting MySQL Benchmark...''))
         (emit (Printed (replicate 30 CHR ''-''))
           (emit (Printed (''Generated '' @ str_nat (length (users_data st0)) @ '' users and '' @
                           str_nat (length (orders_data st0)) @ '' orders.'')) st0))) =
       (Inr r1, st1) \<and>
     run_sqlite E F (emit (Printed (nl @ ''Starting SQLite Benchmark...'')) st1) = (Inr r2, st2) \<and>
     run_mongodb E F (emit (Printed (nl @ ''Starting MongoDB Benchmark...'')) st2) = (Inr r3, st3) \<and>
     run_tinydb E F
       (emit (Printed (nl @ ''Starting TinyDB Benchmark (This may take a while)...'')) st3) =
       (Inr r4, st4) \<and>
     main_benchmarks E F st0 = (Inr (), emit (Printed (nl @ ''Done.'')) st4)"
proof -
  let ?U = "users_data st0" and ?O = "orders_data st0"
  let ?P = "has_data ?U ?O :: ('a, 'b) sys \<Rightarrow> bool"
  let ?pre = "emit (Printed (nl @ ''Starting MySQL Benchmark...''))
         (emit (Printed (replicate 30 CHR ''-''))
           (emit (Printed (''Generated '' @ str_nat (length (users_data st0)) @ '' users and '' @
                           str_nat (length (orders_data st0)) @ '' orders.'')) st0))"
  have keys: "users_have_keys ?U" "orders_have_keys ?O"
    using wf by (simp_all add: well_formed_data_def)
  have "?P ?pre" by (simp add: has_data_def)
  with total_run_mysql [OF healthy keys, of F]
  obtain r1 st1 where 1: "run_mysql E F ?pre = (Inr r1, st1)" and P1: "?P st1"
    by (rule totalD)
  from P1 have "?P (emit (Printed (nl @ ''Starting SQLite Benchmark...'')) st1)"
    by (simp only: has_data_emit)
  with total_run_sqlite [OF healthy keys, of F]
  obtain r2 st2
    where 2: "run_sqlite E F (emit (Printed (nl @ ''Starting SQLite Benchmark...'')) st1) = (Inr r2, st2)"
      and P2: "?P st2"
    by (rule totalD)
  from P2 have "?P (emit (Printed (nl @ ''Starting MongoDB Benchmark...'')) st2)"
    by (simp only: has_data_emit)
  with total_run_mongodb [OF healthy, of ?U ?O F]
  obtain r3 st3
    where 3: "run_mongodb E F (emit (Printed (nl @ ''Starting MongoDB Benchmark...'')) st2) = (Inr r3, st3)"
    by (rule totalD)
  from total_run_tinydb [OF healthy, of F] TrueI
  obtain r4 st4
    where 4: "run_tinydb E F
       (emit (Printed (nl @ ''Starting TinyDB Benchmark (This may take a while)...'')) st3) =
       (Inr r4, st4)"
    by (rule totalD)
  have "main_benchmarks E F st0 = (Inr (), emit (Printed (nl @ ''Done.'')) st4)"
    by (simp only: main_benchmarks_def bind_def get_users_def get_orders_def print_def 1 2 3 4
          prod.case sum.case)
  with 1 2 3 4 show ?thesis by blast
qed

lemma main_eq:
  "main R F E s st = (main_benchmarks E F (main_start R F s st), snd (get_dataset R F s))"
  by (simp add: main_def main_start_def Let_def split: prod.splits)

lemma new_order_keys:
  "map fst (fst (new_order R F i s)) =
     [''order_id'', ''user_id'', ''amount'', ''status'', ''created_at'']"
  by (simp add: new_order_def split: prod.splits)

lemma orders_loop_keys: "orders_have_keys (fst (orders_loop R F is [] s))"
proof (induction "is" arbitrary: s)
  case Nil
  show ?case by (simp add: orders_have_keys_def)
next
  case (Cons i "is")
  have "fst ` set (fst (new_order R F i s)) =
          set [''order_id'', ''user_id'', ''amount'', ''status'', ''created_at'']"
    using new_order_keys [of R F i s] by (metis set_map)
  then show ?case
    using Cons.IH [of "snd (new_order R F i s)"]
    by (simp only: orders_loop_Cons fst_conv orders_have_keys_def set_simps ball_simps
          subset_refl simp_thms)
qed

lemma get_dataset_well_formed: "well_formed_data (main_start R F s st)"
proof -
  have "users_have_keys (map new_user is)" for "is"
    by (simp add: users_have_keys_def new_user_def)
  then show ?thesis
    by (simp add: well_formed_data_def main_start_def get_dataset_unfold orders_loop_keys)
qed

text \<open>
  C7, as amended. In a world where nothing fails except, possibly, the guarded connection
  steps (connecting to MySQL, constructing the MongoDB client and selecting its database),
  \<^verbatim>\<open>__main__\<close> runs all four backends in turn and ends normally after printing
  \<^verbatim>\<open>Done.\<close>: each run returns, the SQLite and TinyDB runs with the six results, the
  MySQL and MongoDB runs with the six results or, only when their guarded step failed, with
  an empty mapping.
\<close>

theorem guarded_failure_does_not_abort:
  assumes "only_guarded_fail E"
  shows "\<exists>r1 st1 r2 st2 r3 st3 r4 st4.
     run_mysql E F (announced (main_start R F s st)) = (Inr r1, st1) \<and>
     run_sqlite E F (emit (Printed (nl @ ''Starting SQLite Benchmark...'')) st1) = (Inr r2, st2) \<and>
     run_mongodb E F (emit (Printed (nl @ ''Starting MongoDB Benchmark...'')) st2) = (Inr r3, st3) \<and>
     run_tinydb E F
       (emit (Printed (nl @ ''Starting TinyDB Benchmark (This may take a while)...'')) st3) =
       (Inr r4, st4) \<and>
     fst (main R F E s st) = (Inr (), emit (Printed (nl @ ''Done.'')) st4) \<and>
     (r1 = [] \<and> (\<exists>e. fst (call E (MysqlConnect MYSQL_CONFIG) (announced (main_start R F s st))) = Inl e) \<or>
      map fst r1 = operation_names) \<and>
     map fst r2 = operation_names \<and>
     (r3 = [] \<and>
        (\<exists>e. fst (bind (call E (MongoClient ''mongodb://localhost:27017/''))
                    (\<lambda>_. call E (MongoGetDatabase ''shopping_db''))
                  (emit (Printed (nl @ ''Starting MongoDB Benchmark...'')) st2)) = Inl e) \<or>
      map fst r3 = operation_names) \<and>
     map fst r4 = operation_names"
proof -
  from total_main_benchmarks [OF assms get_dataset_well_formed, where F = F and R1 = R and s1 = s and st1 = st]
  obtain r1 st1 r2 st2 r3 st3 r4 st4 where
    1: "run_mysql E F (announced (main_start R F s st)) = (Inr r1, st1)" and
    2: "run_sqlite E F (emit (Printed (nl @ ''Starting SQLite Benchmark...'')) st1) = (Inr r2, st2)" and
    3: "run_mongodb E F (emit (Printed (nl @ ''Starting MongoDB Benchmark...'')) st2) = (Inr r3, st3)" and
    4: "run_tinydb E F
       (emit (Printed (nl @ ''Starting TinyDB Benchmark (This may take a while)...'')) st3) =
       (Inr r4, st4)" and
    m: "main_benchmarks E F (main_start R F s st) = (Inr (), emit (Printed (nl @ ''Done.'')) st4)"
    unfolding announced_def by blast
  have "fst (main R F E s st) = (Inr (), emit (Printed (nl @ ''Done.'')) st4)"
    by (simp only: main_eq fst_conv m)
  then show ?thesis
    using 1 2 3 4 run_keys(3) [OF 1] run_keys(1) [OF 2] run_keys(4) [OF 3] run_keys(2) [OF 4]
    by blast
qed

lemma demo_env_healthy: "only_guarded_fail demo_env"
  by (simp add: only_guarded_fail_def demo_env_def)

lemma mysql_down_env_healthy: "only_guarded_fail mysql_down_env"
  unfolding only_guarded_fail_def mysql_down_env_def demo_env_def
  by (auto split: call.splits)

lemma demo_env_clock: "monotonic_clock demo_env (\<lambda>w. of_nat w / 1000)"
  by (simp add: monotonic_clock_def demo_env_def)

lemma demo_env_keeps: "tinydb_keeps_argument demo_env"
  by (simp add: tinydb_keeps_argument_def demo_env_def)

lemma init_sys_has_data: "has_data [] [] init_sys"
  by (simp add: has_data_def init_sys_def)

lemma no_data_keys: "users_have_keys []" "orders_have_keys []"
  by (simp_all add: users_have_keys_def orders_have_keys_def)

lemma demo_runs:
  obtains r1 st1 r2 st2 r3 st3 r4 st4 where
    "run_mysql demo_env rat_ops init_sys = (Inr r1, st1)"
    "run_sqlite demo_env rat_ops init_sys = (Inr r2, st2)"
    "run_mongodb demo_env rat_ops init_sys = (Inr r3, st3)"
    "run_tinydb demo_env rat_ops init_sys = (Inr r4, st4)"
proof -
  from total_run_mysql [OF demo_env_healthy no_data_keys] init_sys_has_data
  obtain r1 st1 where 1: "run_mysql demo_env rat_ops init_sys = (Inr r1, st1)"
    by (rule totalD)
  from total_run_sqlite [OF demo_env_healthy no_data_keys] init_sys_has_data
  obtain r2 st2 where 2: "run_sqlite demo_env rat_ops init_sys = (Inr r2, st2)"
    by (rule totalD)
  from total_run_mongodb [OF demo_env_healthy] init_sys_has_data
  obtain r3 st3 where 3: "run_mongodb demo_env rat_ops init_sys = (Inr r3, st3)"
    by (rule totalD)
  from total_run_tinydb [OF demo_env_healthy] TrueI
  obtain r4 st4 where 4: "run_tinydb demo_env rat_ops init_sys = (Inr r4, st4)"
    by (rule totalD)
  from 1 2 3 4 that show ?thesis by blast
qed

text \<open>
  The theorem in the tick-counter world, whose clock is monotonic and where all four runs
  return.
\<close>

theorem timed_windows_disjoint_witness:
  "monotonic_clock demo_env (\<lambda>w. of_nat w / 1000) \<and>
   sorted (new_readings init_sys (snd (run_mysql demo_env rat_ops init_sys))) \<and>
   sorted (new_readings init_sys (snd (run_sqlite demo_env rat_ops init_sys))) \<and>
   sorted (new_readings init_sys (snd (run_mongodb demo_env rat_ops init_sys))) \<and>
   sorted (new_readings init_sys (snd (run_tinydb demo_env rat_ops init_sys))) \<and>
   (\<exists>res st'. run_mysql demo_env rat_ops init_sys = (Inr res, st') \<and>
      (six_windows rat_ops init_sys st' res \<or> res = [] \<and> new_readings init_sys st' = [])) \<and>
   (\<exists>res st'. run_sqlite demo_env rat_ops init_sys = (Inr res, st') \<and>
      six_windows rat_ops init_sys st' res) \<and>
   (\<exists>res st'. run_mongodb demo_env rat_ops init_sys = (Inr res, st') \<and>
      (six_windows rat_ops init_sys st' res \<or> res = [] \<and> new_readings init_sys st' = [])) \<and>
   (\<exists>res st'. run_tinydb demo_env rat_ops init_sys = (Inr res, st') \<and>
      six_windows rat_ops init_sys st' res)"
proof -
  obtain r1 st1 r2 st2 r3 st3 r4 st4 where
    1: "run_mysql demo_env rat_ops init_sys = (Inr r1, st1)" and
    2: "run_sqlite demo_env rat_ops init_sys = (Inr r2, st2)" and
    3: "run_mongodb demo_env rat_ops init_sys = (Inr r3, st3)" and
    4: "run_tinydb demo_env rat_ops init_sys = (Inr r4, st4)"
    by (rule demo_runs)
  note T = timed_windows_disjoint [OF demo_env_clock, of init_sys rat_ops]
  note S = T [of r1 st1]
  have s1: "sorted (new_readings init_sys (snd (run_mysql demo_env rat_ops init_sys)))"
    by (rule S [THEN conjunct1])
  have s2: "sorted (new_readings init_sys (snd (run_sqlite demo_env rat_ops init_sys)))"
    by (rule S [THEN conjunct2, THEN conjunct1])
  have s3: "sorted (new_readings init_sys (snd (run_mongodb demo_env rat_ops init_sys)))"
    by (rule S [THEN conjunct2, THEN conjunct2, THEN conjunct1])
  have s4: "sorted (new_readings init_sys (snd (run_tinydb demo_env rat_ops init_sys)))"
    by (rule S [THEN conjunct2, THEN conjunct2, THEN conjunct2, THEN conjunct1])
  note W = conjunct2 [OF conjunct2 [OF conjunct2 [OF conjunct2 [OF T]]]]
  have w1: "six_windows rat_ops init_sys st1 r1 \<or> r1 = [] \<and> new_readings init_sys st1 = []"
    by (rule W [of r1 st1, THEN conjunct1, THEN mp, OF 1])
  have w2: "six_windows rat_ops init_sys st2 r2"
    by (rule W [of r2 st2, THEN conjunct2, THEN conjunct1, THEN mp, OF 2])
  have w3: "six_windows rat_ops init_sys st3 r3 \<or> r3 = [] \<and> new_readings init_sys st3 = []"
    by (rule W [of r3 st3, THEN conjunct2, THEN conjunct2, THEN conjunct1, THEN mp, OF 3])
  have w4: "six_windows rat_ops init_sys st4 r4"
    by (rule W [of r4 st4, THEN conjunct2, THEN conjunct2, THEN conjunct2, THEN mp, OF 4])
  show ?thesis
    by (intro conjI exI [of _ r1] exI [of _ st1] exI [of _ r2] exI [of _ st2]
          exI [of _ r3] exI [of _ st3] exI [of _ r4] exI [of _ st4]
          demo_env_clock s1 s2 s3 s4 1 2 3 4 w1 w2 w3 w4)
qed

text \<open>
  The theorem in the world with no MySQL server, on the data of the linear congruential
  generator.
\<close>

theorem guarded_failure_does_not_abort_witness:
  "only_guarded_fail mysql_down_env \<and>
   (\<exists>r1 st1 r2 st2 r3 st3 r4 st4.
     run_mysql mysql_down_env rat_ops (announced (main_start lcg rat_ops 0 init_sys)) = (Inr r1, st1) \<and>
     run_sqlite mysql_down_env rat_ops (emit (Printed (nl @ ''Starting SQLite Benchmark...'')) st1) = (Inr r2, st2) \<and>
     run_mongodb mysql_down_env rat_ops (emit (Printed (nl @ ''Starting MongoDB Benchmark...'')) st2) = (Inr r3, st3) \<and>
     run_tinydb mysql_down_env rat_ops
       (emit (Printed (nl @ ''Starting TinyDB Benchmark (This may take a while)...'')) st3) =
       (Inr r4, st4) \<and>
     fst (main lcg rat_ops mysql_down_env 0 init_sys) = (Inr (), emit (Printed (nl @ ''Done.'')) st4) \<and>
     (r1 = [] \<and> (\<exists>e. fst (call mysql_down_env (MysqlConnect MYSQL_CONFIG)
                          (announced (main_start lcg rat_ops 0 init_sys))) = Inl e) \<or>
      map fst r1 = operation_names) \<and>
     map fst r2 = operation_names \<and>
     (r3 = [] \<and>
        (\<exists>e. fst (bind (call mysql_down_env (MongoClient ''mongodb://localhost:27017/''))
                    (\<lambda>_. call mysql_down_env (MongoGetDatabase ''shopping_db''))
                  (emit (Printed (nl @ ''Starting MongoDB Benchmark...'')) st2)) = Inl e) \<or>
      map fst r3 = operation_names) \<and>
     map fst r4 = operation_names)"
  by (rule conjI [OF mysql_down_env_healthy
        guarded_failure_does_not_abort [OF mysql_down_env_healthy]])

lemma run_mysql_skips:
  assumes "driver E (MysqlConnect MYSQL_CONFIG) (world st) = (Inl e, w')"
  shows "run_mysql E F st =
     (Inr [], st\<lparr>world := w',
                trace := trace st @ [Called (MysqlConnect MYSQL_CONFIG) (Inl e),
                                     Printed (''Skipping MySQL: '' @ exn_str e)]\<rparr>)"
  by (simp add: run_mysql_def try_except_def call_def assms bind_def print_def return_def emit_def)

lemma run_mongodb_skips_client:
  assumes "driver E (MongoClient ''mongodb://localhost:27017/'') (world st) = (Inl e, w')"
  shows "run_mongodb E F st =
     (Inr [], st\<lparr>world := w',
                trace := trace st @ [Called (MongoClient ''mongodb://localhost:27017/'') (Inl e),
                                     Printed (''Skipping MongoDB: '' @ exn_str e)]\<rparr>)"
  by (simp add: run_mongodb_def try_except_def call_def assms bind_def print_def return_def emit_def)

lemma run_mongodb_skips_database:
  assumes "driver E (MongoClient ''mongodb://localhost:27017/'') (world st) = (Inr (), w1)"
    and "driver E (MongoGetDatabase ''shopping_db'') w1 = (Inl e, w')"
  shows "run_mongodb E F st =
     (Inr [], st\<lparr>world := w',
                trace := trace st @ [Called (MongoClient ''mongodb://localhost:27017/'') (Inr ()),
                                     Called (MongoGetDatabase ''shopping_db'') (Inl e),
                                     Printed (''Skipping MongoDB: '' @ exn_str e)]\<rparr>)"
  by (simp add: run_mongodb_def try_except_def call_def assms bind_def print_def return_def emit_def)

text \<open>
  C6, as amended. When connecting to MySQL raises, \<^verbatim>\<open>run_mysql\<close> prints
  \<^verbatim>\<open>Skipping MySQL:\<close> with the cause and returns an empty mapping; when constructing the
  MongoDB client or selecting its database raises, \<^verbatim>\<open>run_mongodb\<close> prints
  \<^verbatim>\<open>Skipping MongoDB:\<close> with the cause and returns an empty mapping. Neither raises, and
  the history shows that nothing else was called: no clock reading, no timed operation.
\<close>

theorem guarded_connection_failure_skips:
  "(driver E (MysqlConnect MYSQL_CONFIG) (world st) = (Inl e, w') \<longrightarrow>
      run_mysql E F st =
        (Inr [], st\<lparr>world := w',
                   trace := trace st @ [Called (MysqlConnect MYSQL_CONFIG) (Inl e),
                                        Printed (''Skipping MySQL: '' @ exn_str e)]\<rparr>)) \<and>
   (driver E (MongoClient ''mongodb://localhost:27017/'') (world st) = (Inl e, w') \<longrightarrow>
      run_mongodb E F st =
        (Inr [], st\<lparr>world := w',
                   trace := trace st @ [Called (MongoClient ''mongodb://localhost:27017/'') (Inl e),
                                        Printed (''Skipping MongoDB: '' @ exn_str e)]\<rparr>)) \<and>
   (driver E (MongoClient ''mongodb://localhost:27017/'') (world st) = (Inr (), w1) \<and>
    driver E (MongoGetDatabase ''shopping_db'') w1 = (Inl e, w') \<longrightarrow>
      run_mongodb E F st =
        (Inr [], st\<lparr>world := w',
                   trace := trace st @ [Called (MongoClient ''mongodb://localhost:27017/'') (Inr ()),
                                        Called (MongoGetDatabase ''shopping_db'') (Inl e),
                                        Printed (''Skipping MongoDB: '' @ exn_str e)]\<rparr>))"
  by (intro conjI impI; (elim conjE)?;
      (rule run_mysql_skips run_mongodb_skips_client run_mongodb_skips_database; assumption))

text \<open>
  The theorem in three worlds: no MySQL server, no MongoDB client, no MongoDB database.
\<close>

theorem guarded_connection_failure_skips_witness:
  "driver mysql_down_env (MysqlConnect MYSQL_CONFIG) (world init_sys) =
     (Inl (Exception ''Connection refused''), 1) \<and>
   run_mysql mysql_down_env rat_ops init_sys =
     (Inr [], init_sys\<lparr>world := 1,
        trace := trace init_sys @
          [Called (MysqlConnect MYSQL_CONFIG) (Inl (Exception ''Connection refused'')),
           Printed (''Skipping MySQL: '' @ exn_str (Exception ''Connection refused''))]\<rparr>) \<and>
   driver mongo_down_env (MongoClient ''mongodb://localhost:27017/'') (world init_sys) =
     (Inl (Exception ''Invalid URI''), 1) \<and>
   run_mongodb mongo_down_env rat_ops init_sys =
     (Inr [], init_sys\<lparr>world := 1,
        trace := trace init_sys @
          [Called (MongoClient ''mongodb://localhost:27017/'') (Inl (Exception ''Invalid URI'')),
           Printed (''Skipping MongoDB: '' @ exn_str (Exception ''Invalid URI''))]\<rparr>) \<and>
   driver mongo_no_database_env (MongoClient ''mongodb://localhost:27017/'') (world init_sys) =
     (Inr (), 1) \<and>
   driver mongo_no_database_env (MongoGetDatabase ''shopping_db'') 1 =
     (Inl (Exception ''InvalidName''), 2) \<and>
   run_mongodb mongo_no_database_env rat_ops init_sys =
     (Inr [], init_sys\<lparr>world := 2,
        trace := trace init_sys @
          [Called (MongoClient ''mongodb://localhost:27017/'') (Inr ()),
           Called (MongoGetDatabase ''shopping_db'') (Inl (Exception ''InvalidName'')),
           Printed (''Skipping MongoDB: '' @ exn_str (Exception ''InvalidName''))]\<rparr>)"
proof -
  have a: "driver mysql_down_env (MysqlConnect MYSQL_CONFIG) (world init_sys) =
     (Inl (Exception ''Connection refused''), 1)"
    by (simp add: mysql_down_env_def init_sys_def)
  have b: "driver mongo_down_env (MongoClient ''mongodb://localhost:27017/'') (world init_sys) =
     (Inl (Exception ''Invalid URI''), 1)"
    by (simp add: mongo_down_env_def init_sys_def)
  have c: "driver mongo_no_database_env (MongoClient ''mongodb://localhost:27017/'') (world init_sys) =
     (Inr (), 1)"
    by (simp add: mongo_no_database_env_def init_sys_def)
  have d: "driver mongo_no_database_env (MongoGetDatabase ''shopping_db'') 1 =
     (Inl (Exception ''InvalidName''), 2)"
    by (simp add: mongo_no_database_env_def)
  note T = guarded_connection_failure_skips
  show ?thesis
    by (intro conjI a b c d
          T [THEN conjunct1, THEN mp, OF a]
          T [THEN conjunct2, THEN conjunct1, THEN mp, OF b]
          T [THEN conjunct2, THEN conjunct2, THEN mp, OF conjI [OF c d]])
qed

lemma call_eval:
  assumes "driver E c (world st) = (r, w')"
  shows "call E c st = (r, st\<lparr>world := w', trace := trace st @ [Called c r]\<rparr>)"
  by (simp add: call_def assms emit_def)

lemma os_path_exists_eval:
  assumes "path_exists E p (world st) = (b, w')"
  shows "os_path_exists E p st = (Inr b, st\<lparr>world := w', trace := trace st @ [Exists p b]\<rparr>)"
  by (simp add: os_path_exists_def assms emit_def)

lemma run_sqlite_raises_at_connect:
  assumes "path_exists E ''benchmark.db'' (world st) = (False, w1)"
    and "driver E (SqliteConnect ''benchmark.db'') w1 = (Inl e, w2)"
  shows "run_sqlite E F st =
     (Inl e, st\<lparr>world := w2,
               trace := trace st @ [Exists ''benchmark.db'' False,
                                    Called (SqliteConnect ''benchmark.db'') (Inl e)]\<rparr>)"
proof -
  let ?st1 = "st\<lparr>world := w1, trace := trace st @ [Exists ''benchmark.db'' False]\<rparr>"
  have 1: "os_path_exists E ''benchmark.db'' st = (Inr False, ?st1)"
    using assms(1) by (rule os_path_exists_eval)
  have 2: "return () ?st1 = (Inr (), ?st1)" by (simp add: return_def)
  have 3: "call E (SqliteConnect ''benchmark.db'') ?st1 =
     (Inl e, ?st1\<lparr>world := w2,
        trace := trace ?st1 @ [Called (SqliteConnect ''benchmark.db'') (Inl e)]\<rparr>)"
    by (rule call_eval) (simp add: assms(2))
  show ?thesis
    unfolding run_sqlite_def Let_def
    by (simp only: bind_def 1 2 3 if_False prod.case sum.case) simp
qed

text \<open>
  C6 as stated fails for SQLite: when the database file cannot be opened, \<^verbatim>\<open>run_sqlite\<close>
  raises the error of \<^verbatim>\<open>sqlite3.connect\<close>; it prints nothing and returns no mapping.
\<close>

theorem sqlite_failure_raises:
  "run_sqlite sqlite_unopenable_env rat_ops init_sys =
     (Inl (Exception ''unable to open database file''),
      init_sys\<lparr>world := 2,
        trace := trace init_sys @
                 [Exists ''benchmark.db'' False,
                  Called (SqliteConnect ''benchmark.db'')
                    (Inl (Exception ''unable to open database file''))]\<rparr>)"
  by (rule run_sqlite_raises_at_connect)
     (simp_all add: sqlite_unopenable_env_def demo_env_def init_sys_def)

lemma run_sqlite_raises_at_create:
  assumes "path_exists E ''benchmark.db'' (world st) = (False, w1)"
    and "driver E (SqliteConnect ''benchmark.db'') w1 = (Inr (), w2)"
    and "driver E (Cursor SQLite) w2 = (Inr (), w3)"
    and "driver E (Execute SQLite
              ''CREATE TABLE users (user_id INTEGER PRIMARY KEY, name TEXT, email TEXT, created_at TEXT)''
              []) w3 = (Inl e, w4)"
  shows "run_sqlite E F st =
     (Inl e, st\<lparr>world := w4,
               trace := trace st @
                 [Exists ''benchmark.db'' False,
                  Called (SqliteConnect ''benchmark.db'') (Inr ()),
                  Called (Cursor SQLite) (Inr ()),
                  Called (Execute SQLite
              ''CREATE TABLE users (user_id INTEGER PRIMARY KEY, name TEXT, email TEXT, created_at TEXT)''
              []) (Inl e)]\<rparr>)"
proof -
  let ?st1 = "st\<lparr>world := w1, trace := trace st @ [Exists ''benchmark.db'' False]\<rparr>"
  let ?st2 = "?st1\<lparr>world := w2,
        trace := trace ?st1 @ [Called (SqliteConnect ''benchmark.db'') (Inr ())]\<rparr>"
  let ?st3 = "?st2\<lparr>world := w3, trace := trace ?st2 @ [Called (Cursor SQLite) (Inr ())]\<rparr>"
  let ?sql = "''CREATE TABLE users (user_id INTEGER PRIMARY KEY, name TEXT, email TEXT, created_at TEXT)''"
  have 1: "os_path_exists E ''benchmark.db'' st = (Inr False, ?st1)"
    using assms(1) by (rule os_path_exists_eval)
  have 2: "return () ?st1 = (Inr (), ?st1)" by (simp add: return_def)
  have 3: "call E (SqliteConnect ''benchmark.db'') ?st1 = (Inr (), ?st2)"
    by (rule call_eval) (simp add: assms(2))
  have 4: "call E (Cursor SQLite) ?st2 = (Inr (), ?st3)"
    by (rule call_eval) (simp add: assms(3))
  have 5: "call E (Execute SQLite ?sql []) ?st3 =
     (Inl e, ?st3\<lparr>world := w4, trace := trace ?st3 @ [Called (Execute SQLite ?sql []) (Inl e)]\<rparr>)"
    by (rule call_eval) (simp add: assms(4))
  show ?thesis
    unfolding run_sqlite_def Let_def
    by (simp only: bind_def 1 2 3 4 5 if_False prod.case sum.case) simp
qed

text \<open>
  C8 as stated fails on a failure path: when SQLite rejects the first statement,
  \<^verbatim>\<open>run_sqlite\<close> raises with the connection opened and never closed.
\<close>

theorem sqlite_connection_left_open:
  "run_sqlite sqlite_rejects_env rat_ops init_sys =
     (Inl (Exception ''disk I/O error''),
      init_sys\<lparr>world := 4,
        trace := trace init_sys @
                 [Exists ''benchmark.db'' False,
                  Called (SqliteConnect ''benchmark.db'') (Inr ()),
                  Called (Cursor SQLite) (Inr ()),
                  Called (Execute SQLite
              ''CREATE TABLE users (user_id INTEGER PRIMARY KEY, name TEXT, email TEXT, created_at TEXT)''
              []) (Inl (Exception ''disk I/O error''))]\<rparr>)"
  by (rule run_sqlite_raises_at_create)
     (simp_all add: sqlite_rejects_env_def demo_env_def init_sys_def)

lemma run_mysql_raises_at_drop:
  assumes "driver E (MysqlConnect MYSQL_CONFIG) (world st) = (Inr (), w1)"
    and "driver E (Cursor MySQL) w1 = (Inr (), w2)"
    and "driver E (Execute MySQL ''DROP TABLE IF EXISTS orders'' []) w2 = (Inl e, w3)"
  shows "run_mysql E F st =
     (Inl e, st\<lparr>world := w3,
               trace := trace st @
                 [Called (MysqlConnect MYSQL_CONFIG) (Inr ()),
                  Called (Cursor MySQL) (Inr ()),
                  Called (Execute MySQL ''DROP TABLE IF EXISTS orders'' []) (Inl e)]\<rparr>)"
proof -
  let ?st1 = "st\<lparr>world := w1, trace := trace st @ [Called (MysqlConnect MYSQL_CONFIG) (Inr ())]\<rparr>"
  let ?st2 = "?st1\<lparr>world := w2, trace := trace ?st1 @ [Called (Cursor MySQL) (Inr ())]\<rparr>"
  have 1: "call E (MysqlConnect MYSQL_CONFIG) st = (Inr (), ?st1)"
    using assms(1) by (rule call_eval)
  have 2: "call E (Cursor MySQL) ?st1 = (Inr (), ?st2)"
    by (rule call_eval) (simp add: assms(2))
  have 3: "call E (Execute MySQL ''DROP TABLE IF EXISTS orders'' []) ?st2 =
     (Inl e, ?st2\<lparr>world := w3,
        trace := trace ?st2 @ [Called (Execute MySQL ''DROP TABLE IF EXISTS orders'' []) (Inl e)]\<rparr>)"
    by (rule call_eval) (simp add: assms(3))
  show ?thesis
    unfolding run_mysql_def Let_def try_except_def
    by (simp only: bind_def 1 2 3 prod.case sum.case) simp
qed

lemma main_benchmarks_raises_in_mysql:
  assumes "run_mysql E F (announced st0) = (Inl e, st')"
  shows "main_benchmarks E F st0 = (Inl e, st')"
  using assms unfolding announced_def
  by (simp only: main_benchmarks_def bind_def get_users_def get_orders_def print_def
        prod.case sum.case)

text \<open>
  C7 as stated fails: when MySQL accepts the connection and rejects the first statement,
  the exception leaves \<^verbatim>\<open>run_mysql\<close> and ends \<^verbatim>\<open>__main__\<close>. After the
  announcements the history holds the three MySQL calls and nothing of SQLite, MongoDB or
  TinyDB.
\<close>

theorem mysql_failure_aborts_main:
  "fst (main lcg rat_ops mysql_rejects_env 0 init_sys) =
     (Inl (Exception ''access denied''),
      (announced (main_start lcg rat_ops 0 init_sys))
        \<lparr>world := 3,
         trace := trace (announced (main_start lcg rat_ops 0 init_sys)) @
                 [Called (MysqlConnect MYSQL_CONFIG) (Inr ()),
                  Called (Cursor MySQL) (Inr ()),
                  Called (Execute MySQL ''DROP TABLE IF EXISTS orders'' [])
                    (Inl (Exception ''access denied''))]\<rparr>)"
proof -
  have w: "world (announced (main_start lcg rat_ops 0 init_sys)) = 0"
    by (simp add: announced_def main_start_def init_sys_def)
  have "run_mysql mysql_rejects_env rat_ops (announced (main_start lcg rat_ops 0 init_sys)) =
     (Inl (Exception ''access denied''),
      (announced (main_start lcg rat_ops 0 init_sys))
        \<lparr>world := 3,
         trace := trace (announced (main_start lcg rat_ops 0 init_sys)) @
                 [Called (MysqlConnect MYSQL_CONFIG) (Inr ()),
                  Called (Cursor MySQL) (Inr ()),
                  Called (Execute MySQL ''DROP TABLE IF EXISTS orders'' [])
                    (Inl (Exception ''access denied''))]\<rparr>)"
    by (rule run_mysql_raises_at_drop)
       (simp_all add: w mysql_rejects_env_def demo_env_def)
  then show ?thesis
    by (simp only: main_eq fst_conv main_benchmarks_raises_in_mysql)
qed

lemma call_Inr_trace:
  "call E c st = (Inr x, st') \<Longrightarrow> trace st' = trace st @ [Called c (Inr ())]"
  by (cases "driver E c (world st)") (auto simp: call_def)

lemma partial_bind_tail:
  assumes "\<And>x. partial (\<lambda>_. True) (g x) Q"
  shows "partial (\<lambda>_. True) (bind f g) Q"
  unfolding partial_def
proof (intro allI impI)
  fix st y st''
  assume "bind f g st = (Inr y, st'')"
  then obtain x st' where "g x st' = (Inr y, st'')" by (rule bind_InrE)
  then show "Q y st''" using assms [of x] by (simp add: partial_def)
qed

lemma partial_closes:
  "partial (\<lambda>_. True) (bind (call E (Close cn)) (\<lambda>_. return r))
     (\<lambda>_ st'. last (trace st') = Called (Close cn) (Inr ()))"
  unfolding partial_def
proof (intro allI impI)
  fix st res st'
  assume "bind (call E (Close cn)) (\<lambda>_. return r) st = (Inr res, st')"
  then obtain x st1 where c: "call E (Close cn) st = (Inr x, st1)"
    and r: "return r st1 = (Inr res, st')"
    by (rule bind_InrE)
  from r have "st' = st1" by (simp add: return_def)
  then show "last (trace st') = Called (Close cn) (Inr ())"
    using call_Inr_trace [OF c] by simp
qed

lemma partialD:
  "partial (\<lambda>_. True) f Q \<Longrightarrow> f st = (Inr x, st') \<Longrightarrow> Q x st'"
  by (simp add: partial_def)

lemma run_sqlite_closes:
  assumes "run_sqlite E F st = (Inr res, st')"
  shows "last (trace st') = Called (Close SQLite) (Inr ())"
proof -
  have "partial (\<lambda>_. True) (run_sqlite E F)
          (\<lambda>_ st'. last (trace st') = Called (Close SQLite) (Inr ()))"
    unfolding run_sqlite_def Let_def
    by (rule partial_closes | rule partial_bind_tail)+
  then show ?thesis using assms by (rule partialD)
qed

lemma run_mysql_closes:
  assumes "run_mysql E F st = (Inr res, st')"
    and "fst (call E (MysqlConnect MYSQL_CONFIG) st) = Inr ()"
  shows "last (trace st') = Called (Close MySQL) (Inr ())"
  using assms(1) unfolding run_mysql_def Let_def
proof (cases rule: try_except_InrE)
  case (caught e st1)
  then show ?thesis using assms(2) by simp
next
  case (passed x st1)
  have "partial (\<lambda>_. True)
     (bind (call E (Cursor MySQL)) (\<lambda>_.
      bind (call E (Execute MySQL ''DROP TABLE IF EXISTS orders'' [])) (\<lambda>_.
      bind (call E (Execute MySQL ''DROP TABLE IF EXISTS users'' [])) (\<lambda>_.
      bind (call E (Execute MySQL
              ''CREATE TABLE users (user_id INT PRIMARY KEY, name VARCHAR(255), email VARCHAR(255), created_at DATETIME)''
              [])) (\<lambda>_.
      bind (call E (Execute MySQL
              ''CREATE TABLE orders (order_id INT PRIMARY KEY, user_id INT, amount DECIMAL(10,2), status VARCHAR(50), created_at DATETIME, FOREIGN KEY (user_id) REFERENCES users(user_id))''
              [])) (\<lambda>_.
      bind (call E (Commit MySQL)) (\<lambda>_.
      bind (measure E F (Benchmark ''MySQL'') ''Create'' (mysql_insert_data E)) (\<lambda>bench.
      bind (measure E F bench ''Read-1 Point'' (mysql_read_point E)) (\<lambda>bench.
      bind (measure E F bench ''Read-2 Range'' (mysql_read_range E)) (\<lambda>bench.
      bind (measure E F bench ''Read-3 UserOrders'' (mysql_read_user_orders E)) (\<lambda>bench.
      bind (measure E F bench ''Update'' (mysql_update_op E)) (\<lambda>bench.
      bind (measure E F bench ''Delete'' (mysql_delete_op E)) (\<lambda>bench.
      bind (call E (Close MySQL)) (\<lambda>_.
      return (results bench)))))))))))))))
     (\<lambda>_ st'. last (trace st') = Called (Close MySQL) (Inr ()))"
    by (rule partial_closes | rule partial_bind_tail)+
  then show ?thesis using passed(2) by (rule partialD)
qed

text \<open>
  C8, as amended. When \<^verbatim>\<open>run_sqlite\<close> returns its results, closing the connection is the
  last thing it did; so for \<^verbatim>\<open>run_mysql\<close>, when it had obtained a connection.
\<close>

theorem connection_closed_on_return:
  "(run_sqlite E F st = (Inr res, st') \<longrightarrow> last (trace st') = Called (Close SQLite) (Inr ())) \<and>
   (run_mysql E F st = (Inr res, st') \<and> fst (call E (MysqlConnect MYSQL_CONFIG) st) = Inr () \<longrightarrow>
      last (trace st') = Called (Close MySQL) (Inr ()))"
  using run_sqlite_closes run_mysql_closes by blast

text \<open>
  The theorem in the tick-counter world, where both runs return.
\<close>

theorem connection_closed_on_return_witness:
  "(\<exists>res st'. run_sqlite demo_env rat_ops init_sys = (Inr res, st') \<and>
       last (trace st') = Called (Close SQLite) (Inr ())) \<and>
   (\<exists>res st'. run_mysql demo_env rat_ops init_sys = (Inr res, st') \<and>
       fst (call demo_env (MysqlConnect MYSQL_CONFIG) init_sys) = Inr () \<and>
       last (trace st') = Called (Close MySQL) (Inr ()))"
proof -
  obtain r1 st1 r2 st2 r3 st3 r4 st4 where
    1: "run_mysql demo_env rat_ops init_sys = (Inr r1, st1)" and
    2: "run_sqlite demo_env rat_ops init_sys = (Inr r2, st2)" and
    "run_mongodb demo_env rat_ops init_sys = (Inr r3, st3)" and
    "run_tinydb demo_env rat_ops init_sys = (Inr r4, st4)"
    by (rule demo_runs)
  have c: "fst (call demo_env (MysqlConnect MYSQL_CONFIG) init_sys) = Inr ()"
    by (simp add: call_fst demo_env_def)
  note T = connection_closed_on_return
  have a: "last (trace st2) = Called (Close SQLite) (Inr ())"
    by (rule T [THEN conjunct1, THEN mp, OF 2])
  have b: "last (trace st1) = Called (Close MySQL) (Inr ())"
    by (rule T [THEN conjunct2, THEN mp, OF conjI [OF 1 c]])
  show ?thesis
    by (intro conjI exI [of _ r1] exI [of _ st1] exI [of _ r2] exI [of _ st2] 1 2 a b c)
qed

lemma tiny_insert_users_keeps:
  assumes "tinydb_keeps_argument E"
  shows "drop i (users_data st) = us \<Longrightarrow>
         users_data (snd (tiny_insert_users E i us st)) = users_data st \<and>
         orders_data (snd (tiny_insert_users E i us st)) = orders_data st"
proof (induction us arbitrary: i st)
  case Nil
  show ?case by (simp add: return_def)
next
  case (Cons u us)
  have u: "users_data st ! i = u"
    using Cons.prems by (rule nth_via_drop)
  have "drop i (users_data st) \<noteq> []" using Cons.prems by simp
  then have i: "i < length (users_data st)" by simp
  have "tl (drop i (users_data st)) = us" using Cons.prems by simp
  then have rest: "drop (Suc i) (users_data st) = us"
    by (simp add: drop_Suc tl_drop)
  let ?ins = "insert_ref E (TinyTbl ''users'') u st"
  have data: "users_data (snd ?ins) = users_data st" "orders_data (snd ?ins) = orders_data st"
    by (simp_all add: insert_ref_snd)
  show ?case
  proof (cases "fst ?ins")
    case (Inl e)
    then have "tiny_insert_users E i (u # us) st = (Inl e, snd ?ins)"
      by (cases ?ins) (simp add: bind_def)
    then show ?thesis using data by simp
  next
    case (Inr u')
    have "snd (fst (insert_doc E (TinyTbl ''users'') u (world st))) = u"
      using assms by (simp add: tinydb_keeps_argument_def)
    then have "u' = u"
      using Inr
      by (cases "insert_doc E (TinyTbl ''users'') u (world st)")
         (auto simp: insert_ref_def split: sum.splits)
    let ?st2 = "(snd ?ins)\<lparr>users_data := (users_data (snd ?ins))[i := u]\<rparr>"
    have "(users_data (snd ?ins))[i := u] = users_data (snd ?ins)"
      using data(1) u by (metis list_update_id)
    then have same: "?st2 = snd ?ins" by simp
    have "tiny_insert_users E i (u # us) st = tiny_insert_users E (Suc i) us (snd ?ins)"
      using Inr \<open>u' = u\<close> same by (cases ?ins) (simp add: bind_def put_user_def)
    moreover have "drop (Suc i) (users_data (snd ?ins)) = us"
      using rest data(1) by simp
    ultimately show ?thesis
      using Cons.IH [of "Suc i" "snd ?ins"] data by simp
  qed
qed

lemma tiny_insert_orders_keeps:
  assumes "tinydb_keeps_argument E"
  shows "drop i (orders_data st) = us \<Longrightarrow>
         users_data (snd (tiny_insert_orders E i us st)) = users_data st \<and>
         orders_data (snd (tiny_insert_orders E i us st)) = orders_data st"
proof (induction us arbitrary: i st)
  case Nil
  show ?case by (simp add: return_def)
next
  case (Cons u us)
  have u: "orders_data st ! i = u"
    using Cons.prems by (rule nth_via_drop)
  have "drop i (orders_data st) \<noteq> []" using Cons.prems by simp
  then have i: "i < length (orders_data st)" by simp
  have "tl (drop i (orders_data st)) = us" using Cons.prems by simp
  then have rest: "drop (Suc i) (orders_data st) = us"
    by (simp add: drop_Suc tl_drop)
  let ?ins = "insert_ref E (TinyTbl ''orders'') u st"
  have data: "users_data (snd ?ins) = users_data st" "orders_data (snd ?ins) = orders_data st"
    by (simp_all add: insert_ref_snd)
  show ?case
  proof (cases "fst ?ins")
    case (Inl e)
    then have "tiny_insert_orders E i (u # us) st = (Inl e, snd ?ins)"
      by (cases ?ins) (simp add: bind_def)
    then show ?thesis using data by simp
  next
    case (Inr u')
    have "snd (fst (insert_doc E (TinyTbl ''orders'') u (world st))) = u"
      using assms by (simp add: tinydb_keeps_argument_def)
    then have "u' = u"
      using Inr
      by (cases "insert_doc E (TinyTbl ''orders'') u (world st)")
         (auto simp: insert_ref_def split: sum.splits)
    let ?st2 = "(snd ?ins)\<lparr>orders_data := (orders_data (snd ?ins))[i := u]\<rparr>"
    have "(orders_data (snd ?ins))[i := u] = orders_data (snd ?ins)"
      using data(2) u by (metis list_update_id)
    then have same: "?st2 = snd ?ins" by simp
    have "tiny_insert_orders E i (u # us) st = tiny_insert_orders E (Suc i) us (snd ?ins)"
      using Inr \<open>u' = u\<close> same by (cases ?ins) (simp add: bind_def put_order_def)
    moreover have "drop (Suc i) (orders_data (snd ?ins)) = us"
      using rest data(2) by simp
    ultimately show ?thesis
      using Cons.IH [of "Suc i" "snd ?ins"] data by simp
  qed
qed

lemma has_data_tinydb_insert_data:
  assumes "tinydb_keeps_argument E"
  shows "inv (has_data U O') (tinydb_insert_data E)"
  unfolding inv_def
proof (intro allI impI)
  fix st :: "('a, 'b) sys"
  assume "has_data U O' st"
  then have d: "users_data st = U" "orders_data st = O'" by (simp_all add: has_data_def)
  let ?a = "tiny_insert_users E 0 (users_data st) st"
  have a: "users_data (snd ?a) = U" "orders_data (snd ?a) = O'"
    using tiny_insert_users_keeps [OF assms, of 0 st "users_data st"] d by simp_all
  let ?b = "tiny_insert_orders E 0 (orders_data (snd ?a)) (snd ?a)"
  have b: "users_data (snd ?b) = U" "orders_data (snd ?b) = O'"
    using tiny_insert_orders_keeps [OF assms, of 0 "snd ?a" "orders_data (snd ?a)"] a by simp_all
  show "has_data U O' (snd (tinydb_insert_data E st))"
  proof (cases ?a)
    case (Pair r st1)
    then have st1: "snd ?a = st1" by simp
    show ?thesis
    proof (cases r)
      case (Inl e)
      then show ?thesis
        using Pair a st1
        by (simp add: tinydb_insert_data_def bind_def get_users_def has_data_def)
    next
      case (Inr x)
      then show ?thesis
        using Pair b st1
        by (simp add: tinydb_insert_data_def bind_def get_users_def get_orders_def has_data_def)
    qed
  qed
qed

lemma has_data_main_benchmarks:
  assumes "tinydb_keeps_argument E"
  shows "inv (has_data U O') (main_benchmarks E F)"
  unfolding main_benchmarks_def
  by (intro inv_intro inv_print [OF has_data_io_closed [of _ _ E]]
        inv_run_mysql inv_run_sqlite inv_run_mongodb inv_run_tinydb
        has_data_io_closed has_data_timer has_data_tinydb_insert_data assms)

lemma has_dataD:
  assumes "inv (has_data (users_data st) (orders_data st)) f"
  shows "users_data (snd (f st)) = users_data st \<and> orders_data (snd (f st)) = orders_data st"
  using assms by (simp add: inv_def has_data_def)

text \<open>
  C9. Provided TinyDB's \<^verbatim>\<open>insert\<close> leaves the dict it is given unchanged, each of the
  four runs, however it ends, leaves the two shared lists and every dict in them as they
  were, whatever MongoDB's \<^verbatim>\<open>insert_one\<close> does to the copy it is given. So after any
  number of runs, and at the end of \<^verbatim>\<open>__main__\<close>, the lists are those that
  \<^verbatim>\<open>get_dataset\<close> returned.
\<close>

theorem shared_data_unchanged:
  assumes "tinydb_keeps_argument E"
  shows "users_data (snd (run_mysql E F st)) = users_data st \<and>
         orders_data (snd (run_mysql E F st)) = orders_data st \<and>
         users_data (snd (run_sqlite E F st)) = users_data st \<and>
         orders_data (snd (run_sqlite E F st)) = orders_data st \<and>
         users_data (snd (run_mongodb E F st)) = users_data st \<and>
         orders_data (snd (run_mongodb E F st)) = orders_data st \<and>
         users_data (snd (run_tinydb E F st)) = users_data st \<and>
         orders_data (snd (run_tinydb E F st)) = orders_data st \<and>
         users_data (snd (fst (main R F E s st0))) = fst (fst (get_dataset R F s)) \<and>
         orders_data (snd (fst (main R F E s st0))) = snd (fst (get_dataset R F s))"
proof -
  have 1: "users_data (snd (run_mysql E F st)) = users_data st \<and>
         orders_data (snd (run_mysql E F st)) = orders_data st"
    by (intro has_dataD inv_run_mysql has_data_io_closed has_data_timer)
  have 2: "users_data (snd (run_sqlite E F st)) = users_data st \<and>
         orders_data (snd (run_sqlite E F st)) = orders_data st"
    by (intro has_dataD inv_run_sqlite has_data_io_closed has_data_timer)
  have 3: "users_data (snd (run_mongodb E F st)) = users_data st \<and>
         orders_data (snd (run_mongodb E F st)) = orders_data st"
    by (intro has_dataD inv_run_mongodb has_data_io_closed has_data_timer)
  have 4: "users_data (snd (run_tinydb E F st)) = users_data st \<and>
         orders_data (snd (run_tinydb E F st)) = orders_data st"
    by (intro has_dataD inv_run_tinydb has_data_io_closed has_data_timer
          has_data_tinydb_insert_data assms)
  have "users_data (snd (main_benchmarks E F (main_start R F s st0))) =
          users_data (main_start R F s st0) \<and>
        orders_data (snd (main_benchmarks E F (main_start R F s st0))) =
          orders_data (main_start R F s st0)"
    by (intro has_dataD has_data_main_benchmarks assms)
  then have 5: "users_data (snd (fst (main R F E s st0))) = fst (fst (get_dataset R F s)) \<and>
         orders_data (snd (fst (main R F E s st0))) = snd (fst (get_dataset R F s))"
    by (simp add: main_eq main_start_def)
  show ?thesis
    by (intro conjI 1 [THEN conjunct1] 1 [THEN conjunct2] 2 [THEN conjunct1] 2 [THEN conjunct2]
          3 [THEN conjunct1] 3 [THEN conjunct2] 4 [THEN conjunct1] 4 [THEN conjunct2]
          5 [THEN conjunct1] 5 [THEN conjunct2])
qed

text \<open>
  The theorem in the tick-counter world, where MongoDB adds an \<^verbatim>\<open>_id\<close> to the dict it
  is given, on the data of the linear congruential generator.
\<close>

theorem shared_data_unchanged_witness:
  "tinydb_keeps_argument demo_env \<and>
   users_data (snd (run_mysql demo_env rat_ops (main_start lcg rat_ops 0 init_sys))) =
     users_data (main_start lcg rat_ops 0 init_sys) \<and>
   orders_data (snd (run_mysql demo_env rat_ops (main_start lcg rat_ops 0 init_sys))) =
     orders_data (main_start lcg rat_ops 0 init_sys) \<and>
   users_data (snd (run_sqlite demo_env rat_ops (main_start lcg rat_ops 0 init_sys))) =
     users_data (main_start lcg rat_ops 0 init_sys) \<and>
   orders_data (snd (run_sqlite demo_env rat_ops (main_start lcg rat_ops 0 init_sys))) =
     orders_data (main_start lcg rat_ops 0 init_sys) \<and>
   users_data (snd (run_mongodb demo_env rat_ops (main_start lcg rat_ops 0 init_sys))) =
     users_data (main_start lcg rat_ops 0 init_sys) \<and>
   orders_data (snd (run_mongodb demo_env rat_ops (main_start lcg rat_ops 0 init_sys))) =
     orders_data (main_start lcg rat_ops 0 init_sys) \<and>
   users_data (snd (run_tinydb demo_env rat_ops (main_start lcg rat_ops 0 init_sys))) =
     users_data (main_start lcg rat_ops 0 init_sys) \<and>
   orders_data (snd (run_tinydb demo_env rat_ops (main_start lcg rat_ops 0 init_sys))) =
     orders_data (main_start lcg rat_ops 0 init_sys) \<and>
   users_data (snd (fst (main lcg rat_ops demo_env 0 init_sys))) =
     fst (fst (get_dataset lcg rat_ops 0)) \<and>
   orders_data (snd (fst (main lcg rat_ops demo_env 0 init_sys))) =
     snd (fst (get_dataset lcg rat_ops 0))"
  by (rule conjI [OF demo_env_keeps shared_data_unchanged [OF demo_env_keeps]])

end
